theory Spec2Isabelle
  imports Main
begin

section \<open>The node table\<close>

text \<open>
  The program keeps one relation, \<^verbatim>\<open>offices\<close>, whose rows are the tuples
  \<^verbatim>\<open>(id, parent_id, name, type)\<close> that the generator yields and the loader inserts.
  \<^verbatim>\<open>parent_id\<close> is nullable (Python \<^verbatim>\<open>None\<close>, SQL \<^verbatim>\<open>NULL\<close>); \<^verbatim>\<open>type\<close> is the
  integer code 1 (office), 2 (department), 3 (staff). Python integers are unbounded,
  so ids are \<^typ>\<open>int\<close>.
\<close>

record node =
  node_id :: int
  parent_id :: "int option"
  name :: string
  node_type :: int

text \<open>
  The catalog entry of the relation: its rows in scan order and the names of its
  indexes. A store without the relation is \<open>None\<close>.
\<close>

record table =
  rows :: "node list"
  indexes :: "string list"

type_synonym store = "table option"

datatype exn =
  UndefinedTable
  | DuplicateTable
  | UniqueViolation
  | CardinalityViolation
  | SourceError

text \<open>
  What the operations print: \<^verbatim>\<open>print(f"Error: {e}")\<close> in the three handlers and the
  message after the table has been created. The progress lines of the generator are
  not part of this log.
\<close>

datatype line = Error_line exn | Created_line

text \<open>
  A psycopg2 connection without autocommit: statements act on the open transaction
  (\<open>working\<close>), \<^verbatim>\<open>commit()\<close> makes it durable, \<^verbatim>\<open>rollback()\<close> discards it.
\<close>

record conn =
  committed :: store
  working :: store
  stdout :: "line list"

definition commit :: "conn \<Rightarrow> conn" where
  "commit c = c\<lparr>committed := working c\<rparr>"

definition rollback :: "conn \<Rightarrow> conn" where
  "rollback c = c\<lparr>working := committed c\<rparr>"

definition print :: "line \<Rightarrow> conn \<Rightarrow> conn" where
  "print l c = c\<lparr>stdout := stdout c @ [l]\<rparr>"

text \<open>The body of every \<^verbatim>\<open>except Exception as e\<close> clause of the class.\<close>

definition handler :: "exn \<Rightarrow> conn \<Rightarrow> conn" where
  "handler e c = print (Error_line e) (rollback c)"

section \<open>The generator\<close>

text \<open>
  \<^verbatim>\<open>random.randint(a, b)\<close> returns an integer between \<open>a\<close> and \<open>b\<close>, both included.
  The generator of the \<^verbatim>\<open>random\<close> module is not code of this program: it is an
  unknown sequence \<open>rs\<close> of raw draws, the \<open>k\<close>-th of which is reduced into the range.
\<close>

definition randint :: "(nat \<Rightarrow> nat) \<Rightarrow> nat \<Rightarrow> int \<Rightarrow> int \<Rightarrow> int" where
  "randint rs k a b = a + int (rs k mod nat (b - a + 1))"

text \<open>Python's \<^verbatim>\<open>str\<close> of a non-negative integer.\<close>

fun dec :: "nat \<Rightarrow> string" where
  "dec n = (if n < 10 then [char_of (48 + n)]
            else dec (n div 10) @ [char_of (48 + n mod 10)])"

declare dec.simps [simp del]

text \<open>The three name prefixes of the source, as the bytes of their UTF-8 encoding.\<close>

definition office_prefix :: string where
  "office_prefix =
     [CHR 0xD0, CHR 0x9E, CHR 0xD1, CHR 0x84, CHR 0xD0, CHR 0xB8, CHR 0xD1, CHR 0x81, CHR 0x5F]"

definition department_prefix :: string where
  "department_prefix =
     [CHR 0xD0, CHR 0x9E, CHR 0xD1, CHR 0x82, CHR 0xD0, CHR 0xB4, CHR 0xD0, CHR 0xB5,
      CHR 0xD0, CHR 0xBB, CHR 0x5F]"

definition staff_prefix :: string where
  "staff_prefix =
     [CHR 0xD0, CHR 0xA1, CHR 0xD0, CHR 0xBE, CHR 0xD1, CHR 0x82, CHR 0xD1, CHR 0x80,
      CHR 0xD1, CHR 0x83, CHR 0xD0, CHR 0xB4, CHR 0xD0, CHR 0xBD, CHR 0xD0, CHR 0xB8,
      CHR 0xD0, CHR 0xBA, CHR 0x5F]"

definition random_name :: "string \<Rightarrow> (nat \<Rightarrow> nat) \<Rightarrow> nat \<Rightarrow> string" where
  "random_name prefix rs k = prefix @ dec (nat (randint rs k 1 10000000000))"

text \<open>
  The three nested \<^verbatim>\<open>for ... in range(...)\<close> loops of \<^verbatim>\<open>_create_random_data\<close>, each a
  recursion on the number of iterations left. The state is the counter \<^verbatim>\<open>i\<close> and the
  number of draws made so far; the result is the nodes yielded, in order. The bound
  of an inner \<^verbatim>\<open>range\<close> is drawn once, after the node of the enclosing level has been
  yielded.
\<close>

fun staff_loop ::
  "(nat \<Rightarrow> nat) \<Rightarrow> nat \<Rightarrow> int \<Rightarrow> int \<times> nat \<Rightarrow> node list \<times> (int \<times> nat)" where
  "staff_loop rs 0 department_id (i, k) = ([], (i, k))"
| "staff_loop rs (Suc n) department_id (i, k) =
     (let staff_id = i + 1;
          nm = random_name staff_prefix rs k;
          (rest, st) = staff_loop rs n department_id (staff_id, k + 1)
      in (\<lparr>node_id = staff_id, parent_id = Some department_id, name = nm, node_type = 3\<rparr>
            # rest, st))"

fun department_loop ::
  "(nat \<Rightarrow> nat) \<Rightarrow> nat \<Rightarrow> int \<Rightarrow> int \<times> nat \<Rightarrow> node list \<times> (int \<times> nat)" where
  "department_loop rs 0 office_id (i, k) = ([], (i, k))"
| "department_loop rs (Suc n) office_id (i, k) =
     (let department_id = i + 1;
          nm = random_name department_prefix rs k;
          staff_count = nat (randint rs (k + 1) 30 1000);
          (staffs, st1) = staff_loop rs staff_count department_id (department_id, k + 2);
          (rest, st2) = department_loop rs n office_id st1
      in (\<lparr>node_id = department_id, parent_id = Some office_id, name = nm, node_type = 2\<rparr>
            # staffs @ rest, st2))"

fun office_loop ::
  "(nat \<Rightarrow> nat) \<Rightarrow> nat \<Rightarrow> int \<times> nat \<Rightarrow> node list \<times> (int \<times> nat)" where
  "office_loop rs 0 (i, k) = ([], (i, k))"
| "office_loop rs (Suc n) (i, k) =
     (let office_id = i + 1;
          nm = random_name office_prefix rs k;
          department_count = nat (randint rs (k + 1) 40 80);
          (departments, st1) = department_loop rs department_count office_id (office_id, k + 2);
          (rest, st2) = office_loop rs n st1
      in (\<lparr>node_id = office_id, parent_id = None, name = nm, node_type = 1\<rparr>
            # departments @ rest, st2))"

definition create_random_data :: "(nat \<Rightarrow> nat) \<Rightarrow> node list" where
  "create_random_data rs = fst (office_loop rs 100 (0, 0))"

section \<open>Schema, load and delete\<close>

text \<open>
  One \<^verbatim>\<open>INSERT INTO offices\<close>: the relation must exist and \<^verbatim>\<open>id\<close> is its primary
  key. \<^verbatim>\<open>executemany\<close> runs it for each tuple of the sequence in turn and stops at the
  first one that raises.
\<close>

definition execute_insert :: "node \<Rightarrow> conn \<Rightarrow> exn + conn" where
  "execute_insert r c =
     (case working c of
        None \<Rightarrow> Inl UndefinedTable
      | Some t \<Rightarrow>
          if node_id r \<in> set (map node_id (rows t)) then Inl UniqueViolation
          else Inr (c\<lparr>working := Some (t\<lparr>rows := rows t @ [r]\<rparr>)\<rparr>))"

fun executemany :: "node list \<Rightarrow> conn \<Rightarrow> (exn + unit) \<times> conn" where
  "executemany [] c = (Inr (), c)"
| "executemany (r # data) c =
     (case execute_insert r c of
        Inl e \<Rightarrow> (Inl e, c)
      | Inr c' \<Rightarrow> executemany data c')"

text \<open>
  \<^verbatim>\<open>import_json\<close>. Opening and parsing the file is outside the program: \<open>source\<close> is
  what \<^verbatim>\<open>_get_data\<close> makes of the path, either the exception it raises or the tuples
  it yields.
\<close>

definition import_json :: "exn + node list \<Rightarrow> conn \<Rightarrow> (exn + unit) \<times> conn" where
  "import_json source c =
     (case source of
        Inl e \<Rightarrow> (Inl e, c)
      | Inr data \<Rightarrow>
          (case executemany data c of
             (Inl e, c') \<Rightarrow> (Inl e, c')
           | (Inr u, c') \<Rightarrow> (Inr (), commit c')))"

definition random_fill :: "(nat \<Rightarrow> nat) \<Rightarrow> conn \<Rightarrow> (exn + unit) \<times> conn" where
  "random_fill rs c =
     (case executemany (create_random_data rs) c of
        (Inl e, c') \<Rightarrow> (Inl e, c')
      | (Inr u, c') \<Rightarrow> (Inr (), commit c'))"

definition idx_name :: string where
  "idx_name = ''idx_offices_type_parent_id''"

text \<open>\<^verbatim>\<open>CREATE TABLE offices (...); CREATE INDEX idx_offices_type_parent_id ...\<close>\<close>

definition execute_create :: "conn \<Rightarrow> exn + conn" where
  "execute_create c =
     (case working c of
        Some t \<Rightarrow> Inl DuplicateTable
      | None \<Rightarrow> Inr (c\<lparr>working := Some \<lparr>rows = [], indexes = [idx_name]\<rparr>\<rparr>))"

text \<open>
  The first half of the \<^verbatim>\<open>try\<close> block of \<^verbatim>\<open>make_data\<close>: the catalog is asked whether
  the table exists, and only when it does not the table and the index are created,
  committed, and the message printed.
\<close>

definition ensure_schema :: "conn \<Rightarrow> (exn + unit) \<times> conn" where
  "ensure_schema c =
     (let table_exists = (working c \<noteq> None)
      in if \<not> table_exists then
           (case execute_create c of
              Inl e \<Rightarrow> (Inl e, c)
            | Inr c' \<Rightarrow> (Inr (), print Created_line (commit c')))
         else (Inr (), c))"

text \<open>The whole \<^verbatim>\<open>try\<close> block of \<^verbatim>\<open>make_data\<close>; \<open>filepath\<close> is \<open>None\<close> or the source read.\<close>

definition make_data_try ::
  "(exn + node list) option \<Rightarrow> (nat \<Rightarrow> nat) \<Rightarrow> conn \<Rightarrow> (exn + unit) \<times> conn" where
  "make_data_try filepath rs c =
     (case ensure_schema c of
        (Inl e, c') \<Rightarrow> (Inl e, c')
      | (Inr u, c') \<Rightarrow>
          (case filepath of
             Some source \<Rightarrow> import_json source c'
           | None \<Rightarrow> random_fill rs c'))"

text \<open>
  \<^verbatim>\<open>make_data\<close>: the handler catches every exception of the block, so the function
  returns (\<open>Inr\<close>) on both paths.
\<close>

definition make_data ::
  "(exn + node list) option \<Rightarrow> (nat \<Rightarrow> nat) \<Rightarrow> conn \<Rightarrow> (exn + unit) \<times> conn" where
  "make_data filepath rs c =
     (case make_data_try filepath rs c of
        (Inl e, c') \<Rightarrow> (Inr (), handler e c')
      | (Inr u, c') \<Rightarrow> (Inr (), c'))"

text \<open>\<^verbatim>\<open>delete_all_data\<close>: \<^verbatim>\<open>DELETE FROM offices\<close> and \<^verbatim>\<open>commit\<close>, under the same handler.\<close>

definition delete_all_try :: "conn \<Rightarrow> (exn + unit) \<times> conn" where
  "delete_all_try c =
     (case working c of
        None \<Rightarrow> (Inl UndefinedTable, c)
      | Some t \<Rightarrow> (Inr (), commit (c\<lparr>working := Some (t\<lparr>rows := []\<rparr>)\<rparr>)))"

definition delete_all_data :: "conn \<Rightarrow> (exn + unit) \<times> conn" where
  "delete_all_data c =
     (case delete_all_try c of
        (Inl e, c') \<Rightarrow> (Inr (), handler e c')
      | (Inr u, c') \<Rightarrow> (Inr (), c'))"

section \<open>The resolver query\<close>

text \<open>
  \<^verbatim>\<open>FROM offices JOIN ancestors ON ancestors.parent_id = offices.id\<close>: the rows of the
  table that are the parent of a row of the working table. A row whose
  \<^verbatim>\<open>parent_id\<close> is \<^verbatim>\<open>NULL\<close> joins with nothing.
\<close>

definition join_parents :: "node list \<Rightarrow> node list \<Rightarrow> node list" where
  "join_parents offices w =
     [p. p \<leftarrow> offices, a \<leftarrow> w, parent_id a = Some (node_id p)]"

text \<open>
  \<^verbatim>\<open>WITH RECURSIVE ... UNION ALL\<close>: the rows of the working table go to the result and
  the recursive term is evaluated on them, until the working table is empty. On a
  cyclic parent chain the working table never empties and there is no result.
\<close>

partial_function (option) ancestors_rec :: "node list \<Rightarrow> node list \<Rightarrow> node list option" where
  "ancestors_rec offices w =
     (if w = [] then Some []
      else Option.bind (ancestors_rec offices (join_parents offices w))
             (\<lambda>r. Some (w @ r)))"

declare ancestors_rec.simps [code]

definition ancestors :: "node list \<Rightarrow> int \<Rightarrow> node list option" where
  "ancestors offices staff_id =
     ancestors_rec offices (filter (\<lambda>r. node_id r = staff_id) offices)"

text \<open>
  \<^verbatim>\<open>(SELECT id FROM ancestors OFFSET 2)\<close> used as a value: the first two rows of the
  chain are skipped; no row left is \<^verbatim>\<open>NULL\<close>, one row is its id, more than one row is
  an error of the store. The value is computed whether or not a row of the table is
  compared with it.
\<close>

definition offset_2 :: "node list \<Rightarrow> exn + int option" where
  "offset_2 chain =
     (case drop 2 chain of
        [] \<Rightarrow> Inr None
      | [r] \<Rightarrow> Inr (Some (node_id r))
      | _ \<Rightarrow> Inl CardinalityViolation)"

text \<open>
  \<^verbatim>\<open>WHERE type = 2 AND parent_id = (...)\<close>: a comparison with \<^verbatim>\<open>NULL\<close> selects no row.
\<close>

definition descendant_department :: "node list \<Rightarrow> int option \<Rightarrow> int list" where
  "descendant_department offices oid =
     map node_id
       (filter (\<lambda>r. node_type r = 2 \<and> oid \<noteq> None \<and> parent_id r = oid) offices)"

definition descendant_staff :: "node list \<Rightarrow> int list \<Rightarrow> string list" where
  "descendant_staff offices depts =
     map name
       (filter (\<lambda>r. node_type r = 3 \<and>
                     (case parent_id r of None \<Rightarrow> False | Some p \<Rightarrow> p \<in> set depts))
          offices)"

definition staffs_query :: "node list \<Rightarrow> int \<Rightarrow> (exn + string list) option" where
  "staffs_query offices staff_id =
     Option.bind (ancestors offices staff_id)
       (\<lambda>chain. Some (case offset_2 chain of
                        Inl e \<Rightarrow> Inl e
                      | Inr oid \<Rightarrow> Inr (descendant_staff offices (descendant_department offices oid))))"

text \<open>
  The \<^verbatim>\<open>try\<close> block of \<^verbatim>\<open>_get_staffs_by_staff_id\<close>: \<^verbatim>\<open>execute\<close> and \<^verbatim>\<open>fetchall\<close>. The
  outer \<open>option\<close> is \<open>None\<close> when the query does not return; \<open>Inl\<close> is an exception
  raised in the block.
\<close>

definition get_staffs_try :: "int \<Rightarrow> conn \<Rightarrow> ((exn + string list) \<times> conn) option" where
  "get_staffs_try staff_id c =
     (case working c of
        None \<Rightarrow> Some (Inl UndefinedTable, c)
      | Some t \<Rightarrow> Option.bind (staffs_query (rows t) staff_id) (\<lambda>r. Some (r, c)))"

text \<open>
  \<^verbatim>\<open>_get_staffs_by_staff_id\<close>. The handler rolls back, prints and falls off the end
  of the function, so the caller gets Python's \<^verbatim>\<open>None\<close> (the inner \<open>None\<close>); \<open>Inl\<close>
  would be an exception that reaches the caller.
\<close>

definition get_staffs_by_staff_id ::
  "int \<Rightarrow> conn \<Rightarrow> ((exn + string list option) \<times> conn) option" where
  "get_staffs_by_staff_id staff_id c =
     Option.bind (get_staffs_try staff_id c)
       (\<lambda>(r, c'). Some (case r of
                          Inl e \<Rightarrow> (Inr None, handler e c')
                        | Inr staffs \<Rightarrow> (Inr (Some staffs), c')))"

section \<open>A concrete forest\<close>

definition example_forest :: "string \<Rightarrow> string \<Rightarrow> string \<Rightarrow> node list" where
  "example_forest n1 n2 n3 =
     [\<lparr>node_id = 1, parent_id = None, name = n1, node_type = 1\<rparr>,
      \<lparr>node_id = 2, parent_id = Some 1, name = n2, node_type = 2\<rparr>,
      \<lparr>node_id = 3, parent_id = Some 1, name = n3, node_type = 2\<rparr>,
      \<lparr>node_id = 4, parent_id = Some 2, name = ''A'', node_type = 3\<rparr>,
      \<lparr>node_id = 5, parent_id = Some 2, name = ''B'', node_type = 3\<rparr>,
      \<lparr>node_id = 6, parent_id = Some 3, name = ''C'', node_type = 3\<rparr>]"

definition no_draws :: "nat \<Rightarrow> nat" where
  "no_draws k = 0"

text \<open>A file with the same id in two records.\<close>

definition duplicate_source :: "(exn + node list) option" where
  "duplicate_source =
     Some (Inr [\<lparr>node_id = 1, parent_id = None, name = ''O'', node_type = 1\<rparr>,
                \<lparr>node_id = 1, parent_id = None, name = ''O'', node_type = 1\<rparr>])"

definition fresh_conn :: conn where
  "fresh_conn = \<lparr>committed = None, working = None, stdout = []\<rparr>"

text \<open>
  The connection after \<^verbatim>\<open>make_data\<close> has loaded the forest from a file into an empty
  database (no draw is made on that path).
\<close>

definition example_conn :: "string \<Rightarrow> string \<Rightarrow> string \<Rightarrow> conn" where
  "example_conn n1 n2 n3 =
     snd (make_data (Some (Inr (example_forest n1 n2 n3))) no_draws fresh_conn)"

section \<open>Well-formed forests\<close>

text \<open>
  The invariants of the data model: ids are unique; an office has no parent, the
  parent of a department is an office of the forest and the parent of a staff node
  is a department of the forest.
\<close>

definition wf_forest :: "node list \<Rightarrow> bool" where
  "wf_forest xs \<longleftrightarrow>
     distinct (map node_id xs) \<and>
     (\<forall>r \<in> set xs.
        (node_type r = 1 \<and> parent_id r = None) \<or>
        (node_type r = 2 \<and> (\<exists>p \<in> set xs. node_type p = 1 \<and> parent_id r = Some (node_id p))) \<or>
        (node_type r = 3 \<and> (\<exists>p \<in> set xs. node_type p = 2 \<and> parent_id r = Some (node_id p))))"

text \<open>
  The downward phase as the specification words it: the names of the staff nodes
  whose parent is a department whose parent is the office.
\<close>

definition office_staff :: "node list \<Rightarrow> int \<Rightarrow> string list" where
  "office_staff xs office_id =
     map name
       (filter (\<lambda>s. node_type s = 3 \<and>
                     (\<exists>d \<in> set xs. node_type d = 2 \<and> parent_id d = Some office_id \<and>
                                    parent_id s = Some (node_id d)))
          xs)"

definition empty_table :: table where
  "empty_table = \<lparr>rows = [], indexes = [idx_name]\<rparr>"

definition example_table :: "string \<Rightarrow> string \<Rightarrow> string \<Rightarrow> table" where
  "example_table n1 n2 n3 = \<lparr>rows = example_forest n1 n2 n3, indexes = [idx_name]\<rparr>"

section \<open>Children and emission order\<close>

text \<open>The nodes of a sequence that have the given type and the given parent.\<close>

definition children :: "int \<Rightarrow> int \<Rightarrow> node list \<Rightarrow> node list" where
  "children t p xs = filter (\<lambda>r. node_type r = t \<and> parent_id r = Some p) xs"

text \<open>
  A node is linked to the nodes emitted before it when it is an office without a
  parent, or its parent is among them and has the enclosing type.
\<close>

definition link_ok :: "node list \<Rightarrow> node \<Rightarrow> bool" where
  "link_ok seen r \<longleftrightarrow>
     (node_type r = 1 \<and> parent_id r = None) \<or>
     (node_type r = 2 \<and> (\<exists>p \<in> set seen. node_type p = 1 \<and> parent_id r = Some (node_id p))) \<or>
     (node_type r = 3 \<and> (\<exists>p \<in> set seen. node_type p = 2 \<and> parent_id r = Some (node_id p)))"

fun linked :: "node list \<Rightarrow> node list \<Rightarrow> bool" where
  "linked seen [] = True"
| "linked seen (r # xs) = (link_ok seen r \<and> linked (seen @ [r]) xs)"

section \<open>The resolver on well-formed forests\<close>

lemma ancestors_rec_Nil: "ancestors_rec offices [] = Some []"
  by (subst ancestors_rec.simps) simp

lemma ancestors_rec_Cons:
  "ancestors_rec offices (x # xs) =
     Option.bind (ancestors_rec offices (join_parents offices (x # xs))) (\<lambda>r. Some (x # xs @ r))"
  by (subst ancestors_rec.simps) simp

lemma example_conn_eq:
  "example_conn n1 n2 n3 =
     (let s = Some \<lparr>rows = example_forest n1 n2 n3, indexes = [idx_name]\<rparr>
      in \<lparr>committed = s, working = s, stdout = [Created_line]\<rparr>)"
  by (simp add: example_conn_def make_data_def make_data_try_def ensure_schema_def
      execute_create_def fresh_conn_def import_json_def example_forest_def execute_insert_def
      commit_def print_def Let_def)

lemma concat_map_if: "concat (map (\<lambda>x. if P x then [f x] else []) xs) = map f (filter P xs)"
  by (induction xs) auto

lemma join_parents_single:
  "join_parents offices [a] = filter (\<lambda>p. parent_id a = Some (node_id p)) offices"
  using concat_map_if [of "\<lambda>p. parent_id a = Some (node_id p)" "\<lambda>p. p" offices]
  by (simp add: join_parents_def)

lemma filter_id_unique:
  "distinct (map node_id xs) \<Longrightarrow> r \<in> set xs \<Longrightarrow> filter (\<lambda>q. node_id q = node_id r) xs = [r]"
proof (induction xs)
  case Nil
  then show ?case by simp
next
  case (Cons x xs)
  show ?case
  proof (cases "x = r")
    case True
    with Cons.prems have "\<forall>q \<in> set xs. node_id q \<noteq> node_id r"
      by (fastforce simp: image_iff)
    then have "filter (\<lambda>q. node_id q = node_id r) xs = []" by (simp add: filter_empty_conv)
    with True show ?thesis by simp
  next
    case False
    with Cons.prems have "r \<in> set xs" "node_id x \<noteq> node_id r" "distinct (map node_id xs)"
      by auto
    with Cons.IH show ?thesis by simp
  qed
qed

lemma filter_id_unique':
  "distinct (map node_id xs) \<Longrightarrow> r \<in> set xs \<Longrightarrow> filter (\<lambda>q. node_id r = node_id q) xs = [r]"
  using filter_id_unique [of xs r] by (simp add: eq_commute)

lemma filter_id_missing:
  "i \<notin> set (map node_id xs) \<Longrightarrow> filter (\<lambda>q. node_id q = i) xs = []"
  by (auto simp: filter_empty_conv)


lemma chain_office:
  assumes "distinct (map node_id xs)" "r \<in> set xs" "parent_id r = None"
  shows "ancestors xs (node_id r) = Some [r]"
  using assms
  by (simp add: ancestors_def filter_id_unique ancestors_rec_Cons join_parents_single ancestors_rec_Nil)

lemma chain_department:
  assumes "distinct (map node_id xs)" "d \<in> set xs" "p \<in> set xs"
    "parent_id d = Some (node_id p)" "parent_id p = None"
  shows "ancestors xs (node_id d) = Some [d, p]"
  using assms
  by (simp add: ancestors_def filter_id_unique ancestors_rec_Cons join_parents_single
      ancestors_rec_Nil filter_id_unique')

lemma chain_staff:
  assumes "distinct (map node_id xs)" "s \<in> set xs" "d \<in> set xs" "p \<in> set xs"
    "parent_id s = Some (node_id d)" "parent_id d = Some (node_id p)" "parent_id p = None"
  shows "ancestors xs (node_id s) = Some [s, d, p]"
  using assms
  by (simp add: ancestors_def filter_id_unique ancestors_rec_Cons join_parents_single
      ancestors_rec_Nil filter_id_unique')

lemma chain_missing:
  "i \<notin> set (map node_id xs) \<Longrightarrow> ancestors xs i = Some []"
  by (simp add: ancestors_def filter_id_missing ancestors_rec_Nil)

lemma descendant_department_None: "descendant_department xs None = []"
  by (simp add: descendant_department_def)

lemma descendant_staff_Nil: "descendant_staff xs [] = []"
  by (auto simp: descendant_staff_def filter_empty_conv split: option.splits)

lemma downward_office_staff:
  "descendant_staff xs (descendant_department xs (Some i)) = office_staff xs i"
  unfolding descendant_staff_def office_staff_def
  by (rule arg_cong [where f = "map name"], rule filter_cong [OF refl])
     (auto simp: descendant_department_def split: option.splits)


lemma resolve_missing:
  assumes "working c = Some t" "i \<notin> set (map node_id (rows t))"
  shows "get_staffs_by_staff_id i c = Some (Inr (Some []), c)"
  using assms
  by (simp add: get_staffs_by_staff_id_def get_staffs_try_def staffs_query_def chain_missing
      offset_2_def descendant_department_None descendant_staff_Nil)

lemma wf_office_root:
  "wf_forest xs \<Longrightarrow> p \<in> set xs \<Longrightarrow> node_type p = 1 \<Longrightarrow> parent_id p = None"
  by (auto simp: wf_forest_def)

lemma wf_department_parent:
  "wf_forest xs \<Longrightarrow> d \<in> set xs \<Longrightarrow> node_type d = 2 \<Longrightarrow>
   \<exists>p \<in> set xs. node_type p = 1 \<and> parent_id d = Some (node_id p) \<and> parent_id p = None"
proof -
  assume wf: "wf_forest xs" and d: "d \<in> set xs" "node_type d = 2"
  from wf d obtain p where p: "p \<in> set xs" "node_type p = 1" "parent_id d = Some (node_id p)"
    unfolding wf_forest_def by force
  with wf have "parent_id p = None" by (auto dest: wf_office_root)
  with p show ?thesis by blast
qed

lemma wf_staff_parent:
  "wf_forest xs \<Longrightarrow> s \<in> set xs \<Longrightarrow> node_type s = 3 \<Longrightarrow>
   \<exists>d \<in> set xs. node_type d = 2 \<and> parent_id s = Some (node_id d)"
  unfolding wf_forest_def by force

lemma resolve_office:
  assumes "working c = Some t" "wf_forest (rows t)" "p \<in> set (rows t)" "node_type p = 1"
  shows "get_staffs_by_staff_id (node_id p) c = Some (Inr (Some []), c)"
proof -
  have "distinct (map node_id (rows t))" using assms(2) by (simp add: wf_forest_def)
  moreover have "parent_id p = None" using assms by (auto dest: wf_office_root)
  ultimately have "ancestors (rows t) (node_id p) = Some [p]"
    using assms(3) by (simp add: chain_office)
  then show ?thesis using assms(1)
    by (simp add: get_staffs_by_staff_id_def get_staffs_try_def staffs_query_def
        offset_2_def descendant_department_None descendant_staff_Nil)
qed

lemma resolve_department:
  assumes "working c = Some t" "wf_forest (rows t)" "d \<in> set (rows t)" "node_type d = 2"
  shows "get_staffs_by_staff_id (node_id d) c = Some (Inr (Some []), c)"
proof -
  have dist: "distinct (map node_id (rows t))" using assms(2) by (simp add: wf_forest_def)
  obtain p where p: "p \<in> set (rows t)" "parent_id d = Some (node_id p)" "parent_id p = None"
    using wf_department_parent [OF assms(2,3,4)] by blast
  have "ancestors (rows t) (node_id d) = Some [d, p]"
    using dist assms(3) p by (simp add: chain_department)
  then show ?thesis using assms(1)
    by (simp add: get_staffs_by_staff_id_def get_staffs_try_def staffs_query_def
        offset_2_def descendant_department_None descendant_staff_Nil)
qed

lemma resolve_staff:
  assumes "working c = Some t" "wf_forest (rows t)" "s \<in> set (rows t)" "node_type s = 3"
  shows "\<exists>d \<in> set (rows t). \<exists>p \<in> set (rows t).
           node_type d = 2 \<and> node_type p = 1 \<and>
           parent_id s = Some (node_id d) \<and> parent_id d = Some (node_id p) \<and>
           get_staffs_by_staff_id (node_id s) c =
             Some (Inr (Some (office_staff (rows t) (node_id p))), c)"
proof -
  have dist: "distinct (map node_id (rows t))" using assms(2) by (simp add: wf_forest_def)
  obtain d where d: "d \<in> set (rows t)" "node_type d = 2" "parent_id s = Some (node_id d)"
    using wf_staff_parent [OF assms(2,3,4)] by blast
  obtain p where p: "p \<in> set (rows t)" "node_type p = 1" "parent_id d = Some (node_id p)"
      "parent_id p = None"
    using wf_department_parent [OF assms(2) d(1,2)] by blast
  have "ancestors (rows t) (node_id s) = Some [s, d, p]"
    using dist assms(3) d p by (simp add: chain_staff)
  then have "get_staffs_by_staff_id (node_id s) c =
      Some (Inr (Some (office_staff (rows t) (node_id p))), c)"
    using assms(1)
    by (simp add: get_staffs_by_staff_id_def get_staffs_try_def staffs_query_def
        offset_2_def downward_office_staff)
  with d p show ?thesis by blast
qed

lemma wf_example: "wf_forest (example_forest n1 n2 n3)"
  by (simp add: wf_forest_def example_forest_def)


lemma example_conn_working:
  "working (example_conn n1 n2 n3) = Some (example_table n1 n2 n3)"
  by (simp add: example_conn_eq example_table_def Let_def)

lemma example_ids: "map node_id (rows (example_table n1 n2 n3)) = [1, 2, 3, 4, 5, 6]"
  by (simp add: example_table_def example_forest_def)

lemma example_office_staff: "office_staff (example_forest n1 n2 n3) 1 = [''A'', ''B'', ''C'']"
  by (simp add: office_staff_def example_forest_def)

section \<open>The claims about the resolver\<close>

text \<open>
  C1. With the six-node forest (office 1, departments 2 and 3 under it, staff 4 "A" and
  5 "B" under department 2, staff 6 "C" under department 3) loaded into the store, the
  resolver returns the names A, B, C for each of the staff ids 4, 5 and 6, and the
  empty sequence for the id 999, which is not in the store.
\<close>

theorem list_colleagues_example:
  "working (example_conn n1 n2 n3) = Some (example_table n1 n2 n3) \<and>
   get_staffs_by_staff_id 4 (example_conn n1 n2 n3) =
     Some (Inr (Some [''A'', ''B'', ''C'']), example_conn n1 n2 n3) \<and>
   get_staffs_by_staff_id 5 (example_conn n1 n2 n3) =
     Some (Inr (Some [''A'', ''B'', ''C'']), example_conn n1 n2 n3) \<and>
   get_staffs_by_staff_id 6 (example_conn n1 n2 n3) =
     Some (Inr (Some [''A'', ''B'', ''C'']), example_conn n1 n2 n3) \<and>
   get_staffs_by_staff_id 999 (example_conn n1 n2 n3) =
     Some (Inr (Some []), example_conn n1 n2 n3)"
  by (simp add: example_conn_eq example_table_def Let_def example_forest_def
      get_staffs_by_staff_id_def get_staffs_try_def staffs_query_def ancestors_def
      join_parents_def offset_2_def descendant_department_def descendant_staff_def
      ancestors_rec_Nil ancestors_rec_Cons)

text \<open>
  C2, as stated, fails: in the six-node forest the office id 1 resolves to the empty
  sequence, while the staff id 4 of the same office resolves to A, B, C.
\<close>

theorem office_id_counterexample:
  "get_staffs_by_staff_id 1 (example_conn ''O'' ''D1'' ''D2'') =
     Some (Inr (Some []), example_conn ''O'' ''D1'' ''D2'') \<and>
   get_staffs_by_staff_id 4 (example_conn ''O'' ''D1'' ''D2'') =
     Some (Inr (Some [''A'', ''B'', ''C'']), example_conn ''O'' ''D1'' ''D2'') \<and>
   get_staffs_by_staff_id 1 (example_conn ''O'' ''D1'' ''D2'') \<noteq>
     get_staffs_by_staff_id 4 (example_conn ''O'' ''D1'' ''D2'')"
  by (simp add: example_conn_eq Let_def example_forest_def
      get_staffs_by_staff_id_def get_staffs_try_def staffs_query_def ancestors_def
      join_parents_def offset_2_def descendant_department_def descendant_staff_def
      ancestors_rec_Nil ancestors_rec_Cons)

text \<open>
  C2, amended. For every well-formed forest in the store and every office id in it,
  the resolver returns the empty sequence: the ancestor chain of an office is the
  office alone, so the row at offset 2 does not exist and no department is selected.
\<close>

theorem office_id_resolves_empty:
  assumes "working c = Some t" and "wf_forest (rows t)"
    and "p \<in> set (rows t)" and "node_type p = 1"
  shows "get_staffs_by_staff_id (node_id p) c = Some (Inr (Some []), c)"
  using assms by (rule resolve_office)

theorem office_id_resolves_empty_witness:
  "working (example_conn ''O'' ''D1'' ''D2'') = Some (example_table ''O'' ''D1'' ''D2'') \<and>
   wf_forest (rows (example_table ''O'' ''D1'' ''D2'')) \<and>
   \<lparr>node_id = 1, parent_id = None, name = ''O'', node_type = 1\<rparr>
     \<in> set (rows (example_table ''O'' ''D1'' ''D2'')) \<and>
   get_staffs_by_staff_id 1 (example_conn ''O'' ''D1'' ''D2'') =
     Some (Inr (Some []), example_conn ''O'' ''D1'' ''D2'')"
proof -
  let ?p = "\<lparr>node_id = 1, parent_id = None, name = ''O'', node_type = 1\<rparr>"
  have w: "working (example_conn ''O'' ''D1'' ''D2'') = Some (example_table ''O'' ''D1'' ''D2'')"
    by (rule example_conn_working)
  have f: "wf_forest (rows (example_table ''O'' ''D1'' ''D2''))"
    by (simp add: example_table_def wf_example)
  have m: "?p \<in> set (rows (example_table ''O'' ''D1'' ''D2''))"
    by (simp add: example_table_def example_forest_def)
  have "node_type ?p = 1" by simp
  from office_id_resolves_empty [OF w f m this] w f m show ?thesis by simp
qed

text \<open>
  C3, as stated, fails: in the six-node forest the department id 2 resolves to the
  empty sequence, while the staff id 4 of that department resolves to A, B, C.
\<close>

theorem department_id_counterexample:
  "get_staffs_by_staff_id 2 (example_conn ''O'' ''D1'' ''D2'') =
     Some (Inr (Some []), example_conn ''O'' ''D1'' ''D2'') \<and>
   get_staffs_by_staff_id 4 (example_conn ''O'' ''D1'' ''D2'') =
     Some (Inr (Some [''A'', ''B'', ''C'']), example_conn ''O'' ''D1'' ''D2'') \<and>
   get_staffs_by_staff_id 2 (example_conn ''O'' ''D1'' ''D2'') \<noteq>
     get_staffs_by_staff_id 4 (example_conn ''O'' ''D1'' ''D2'')"
  by (simp add: example_conn_eq Let_def example_forest_def
      get_staffs_by_staff_id_def get_staffs_try_def staffs_query_def ancestors_def
      join_parents_def offset_2_def descendant_department_def descendant_staff_def
      ancestors_rec_Nil ancestors_rec_Cons)

text \<open>
  C3, amended. The upward phase collects the whole parent chain, and the office is
  the row at the fixed offset 2 of it. So for every well-formed forest in the store,
  a staff id resolves to the names of all staff of the enclosing office (the staff
  whose department belongs to the office of the department of the node), and a
  department id resolves to the empty sequence.
\<close>

theorem fixed_offset_resolution:
  assumes "working c = Some t" and "wf_forest (rows t)"
  shows "(\<forall>s \<in> set (rows t). node_type s = 3 \<longrightarrow>
            (\<exists>d \<in> set (rows t). \<exists>p \<in> set (rows t).
               node_type d = 2 \<and> node_type p = 1 \<and>
               parent_id s = Some (node_id d) \<and> parent_id d = Some (node_id p) \<and>
               get_staffs_by_staff_id (node_id s) c =
                 Some (Inr (Some (office_staff (rows t) (node_id p))), c))) \<and>
         (\<forall>d \<in> set (rows t). node_type d = 2 \<longrightarrow>
            get_staffs_by_staff_id (node_id d) c = Some (Inr (Some []), c))"
  using assms by (blast intro: resolve_staff resolve_department)

theorem fixed_offset_resolution_witness:
  "working (example_conn ''O'' ''D1'' ''D2'') = Some (example_table ''O'' ''D1'' ''D2'') \<and>
   wf_forest (rows (example_table ''O'' ''D1'' ''D2'')) \<and>
   get_staffs_by_staff_id 4 (example_conn ''O'' ''D1'' ''D2'') =
     Some (Inr (Some [''A'', ''B'', ''C'']), example_conn ''O'' ''D1'' ''D2'') \<and>
   get_staffs_by_staff_id 2 (example_conn ''O'' ''D1'' ''D2'') =
     Some (Inr (Some []), example_conn ''O'' ''D1'' ''D2'')"
proof -
  let ?s = "\<lparr>node_id = 4, parent_id = Some 2, name = ''A'', node_type = 3\<rparr>"
  let ?d = "\<lparr>node_id = 2, parent_id = Some 1, name = ''D1'', node_type = 2\<rparr>"
  let ?T = "example_table ''O'' ''D1'' ''D2''"
  let ?C = "example_conn ''O'' ''D1'' ''D2''"
  have w: "working ?C = Some ?T" by (rule example_conn_working)
  have f: "wf_forest (rows ?T)" by (simp add: example_table_def wf_example)
  have s: "?s \<in> set (rows ?T)" "node_type ?s = 3"
    by (simp_all add: example_table_def example_forest_def)
  have d: "?d \<in> set (rows ?T)" "node_type ?d = 2"
    by (simp_all add: example_table_def example_forest_def)
  from fixed_offset_resolution [OF w f] s
  obtain p where p: "p \<in> set (rows ?T)" "node_type p = 1"
    "get_staffs_by_staff_id (node_id ?s) ?C =
       Some (Inr (Some (office_staff (rows ?T) (node_id p))), ?C)"
    by blast
  from p(1,2) have "node_id p = 1"
    by (auto simp: example_table_def example_forest_def)
  with p(3) have "get_staffs_by_staff_id 4 ?C = Some (Inr (Some [''A'', ''B'', ''C'']), ?C)"
    by (simp add: example_table_def example_office_staff)
  moreover from fixed_offset_resolution [OF w f] d
  have "get_staffs_by_staff_id (node_id ?d) ?C = Some (Inr (Some []), ?C)"
    by blast
  ultimately show ?thesis using w f by simp
qed

text \<open>
  C4, as stated, fails on a store in which the table does not exist: no id occurs in
  it, the query raises, the handler prints the error and the function returns
  Python's \<^verbatim>\<open>None\<close>, not an empty sequence.
\<close>

theorem missing_id_counterexample:
  "get_staffs_by_staff_id 999 fresh_conn =
     Some (Inr None, fresh_conn\<lparr>stdout := [Error_line UndefinedTable]\<rparr>)"
  by (simp add: get_staffs_by_staff_id_def get_staffs_try_def fresh_conn_def handler_def
      rollback_def print_def)

text \<open>
  C4, amended. For every store state in which the table exists and every id that does
  not occur in it, the resolver returns the empty sequence, raises no error and
  leaves the connection as it was.
\<close>

theorem missing_id_resolves_empty:
  assumes "working c = Some t" and "i \<notin> set (map node_id (rows t))"
  shows "get_staffs_by_staff_id i c = Some (Inr (Some []), c)"
  using assms by (rule resolve_missing)

theorem missing_id_resolves_empty_witness:
  "working (example_conn ''O'' ''D1'' ''D2'') = Some (example_table ''O'' ''D1'' ''D2'') \<and>
   999 \<notin> set (map node_id (rows (example_table ''O'' ''D1'' ''D2''))) \<and>
   get_staffs_by_staff_id 999 (example_conn ''O'' ''D1'' ''D2'') =
     Some (Inr (Some []), example_conn ''O'' ''D1'' ''D2'')"
proof -
  have w: "working (example_conn ''O'' ''D1'' ''D2'') = Some (example_table ''O'' ''D1'' ''D2'')"
    by (rule example_conn_working)
  have m: "999 \<notin> set (map node_id (rows (example_table ''O'' ''D1'' ''D2'')))"
    by (simp add: example_ids)
  from missing_id_resolves_empty [OF w m] w m show ?thesis by simp
qed

section \<open>Schema, delete and the handlers\<close>

lemma ensure_schema_absent:
  "working c = None \<Longrightarrow>
   ensure_schema c =
     (Inr (), c\<lparr>working := Some empty_table, committed := Some empty_table,
                stdout := stdout c @ [Created_line]\<rparr>)"
  by (simp add: ensure_schema_def execute_create_def commit_def print_def empty_table_def)

lemma ensure_schema_present: "working c = Some t \<Longrightarrow> ensure_schema c = (Inr (), c)"
  by (simp add: ensure_schema_def)

lemma executemany_keeps:
  "executemany data c = (r, c') \<Longrightarrow> committed c' = committed c \<and> stdout c' = stdout c"
proof (induction data arbitrary: c)
  case Nil
  then show ?case by simp
next
  case (Cons x data)
  show ?case
  proof (cases "execute_insert x c")
    case (Inl e)
    with Cons.prems show ?thesis by simp
  next
    case (Inr c1)
    then have "committed c1 = committed c \<and> stdout c1 = stdout c"
      by (auto simp: execute_insert_def split: option.splits if_splits)
    moreover from Inr Cons.prems have "executemany data c1 = (r, c')" by simp
    ultimately show ?thesis using Cons.IH by simp
  qed
qed

lemma import_json_raises:
  "import_json source c = (Inl e, c1) \<Longrightarrow> committed c1 = committed c \<and> stdout c1 = stdout c"
  by (auto simp: import_json_def split: sum.splits prod.splits dest: executemany_keeps)

lemma random_fill_raises:
  "random_fill rs c = (Inl e, c1) \<Longrightarrow> committed c1 = committed c \<and> stdout c1 = stdout c"
  by (auto simp: random_fill_def split: sum.splits prod.splits dest: executemany_keeps)

lemma make_data_try_raises:
  assumes "make_data_try filepath rs c = (Inl e, c1)"
  shows "committed c1 = (if working c = None then Some empty_table else committed c) \<and>
         stdout c1 = (if working c = None then stdout c @ [Created_line] else stdout c)"
proof (cases "working c")
  case None
  let ?c = "c\<lparr>working := Some empty_table, committed := Some empty_table,
              stdout := stdout c @ [Created_line]\<rparr>"
  from None assms have "(case filepath of Some source \<Rightarrow> import_json source ?c
                         | None \<Rightarrow> random_fill rs ?c) = (Inl e, c1)"
    by (simp add: make_data_try_def ensure_schema_absent)
  then have "committed c1 = committed ?c \<and> stdout c1 = stdout ?c"
    by (cases filepath) (auto dest: import_json_raises random_fill_raises)
  with None show ?thesis by simp
next
  case (Some t)
  from Some assms have "(case filepath of Some source \<Rightarrow> import_json source c
                         | None \<Rightarrow> random_fill rs c) = (Inl e, c1)"
    by (simp add: make_data_try_def ensure_schema_present)
  then have "committed c1 = committed c \<and> stdout c1 = stdout c"
    by (cases filepath) (auto dest: import_json_raises random_fill_raises)
  with Some show ?thesis by simp
qed

lemma handler_simps:
  "working (handler e c) = committed c"
  "committed (handler e c) = committed c"
  "stdout (handler e c) = stdout c @ [Error_line e]"
  by (simp_all add: handler_def rollback_def print_def)

lemma get_staffs_try_raises:
  "get_staffs_try i c = Some (r, c1) \<Longrightarrow> c1 = c"
  by (auto simp: get_staffs_try_def split: option.splits Option.bind_splits)

lemma delete_all_present:
  "working c = Some t \<Longrightarrow>
   delete_all_data c =
     (Inr (), c\<lparr>working := Some (t\<lparr>rows := []\<rparr>), committed := Some (t\<lparr>rows := []\<rparr>)\<rparr>)"
  by (simp add: delete_all_data_def delete_all_try_def commit_def)

text \<open>
  C7. Ensuring the schema is idempotent: the first call never errors and keeps the
  rows of a table that exists; a second call never errors and changes nothing at
  all, so it creates no second table or index and leaves every row as it is.
\<close>

theorem ensure_schema_idempotent:
  "fst (ensure_schema c) = Inr () \<and>
   map_option rows (working (snd (ensure_schema c))) =
     (case working c of None \<Rightarrow> Some [] | Some t \<Rightarrow> Some (rows t)) \<and>
   ensure_schema (snd (ensure_schema c)) = (Inr (), snd (ensure_schema c))"
proof (cases "working c")
  case None
  then show ?thesis
    by (simp add: ensure_schema_absent ensure_schema_present empty_table_def)
next
  case (Some t)
  then show ?thesis by (simp add: ensure_schema_present)
qed

text \<open>
  C8. The wipe deletes every row and commits, and a query for an id that was in the
  table before the wipe then returns the empty sequence.
\<close>

theorem wipe_then_resolve_empty:
  assumes "working c = Some t" and "i \<in> set (map node_id (rows t))"
  shows "fst (delete_all_data c) = Inr () \<and>
         committed (snd (delete_all_data c)) = Some (t\<lparr>rows := []\<rparr>) \<and>
         working (snd (delete_all_data c)) = Some (t\<lparr>rows := []\<rparr>) \<and>
         get_staffs_by_staff_id i (snd (delete_all_data c)) =
           Some (Inr (Some []), snd (delete_all_data c))"
proof -
  let ?c = "c\<lparr>working := Some (t\<lparr>rows := []\<rparr>), committed := Some (t\<lparr>rows := []\<rparr>)\<rparr>"
  have d: "delete_all_data c = (Inr (), ?c)" using assms(1) by (rule delete_all_present)
  have "get_staffs_by_staff_id i ?c = Some (Inr (Some []), ?c)"
    by (rule resolve_missing [where t = "t\<lparr>rows := []\<rparr>"]) simp_all
  with d show ?thesis by simp
qed

theorem wipe_then_resolve_empty_witness:
  "working (example_conn ''O'' ''D1'' ''D2'') = Some (example_table ''O'' ''D1'' ''D2'') \<and>
   4 \<in> set (map node_id (rows (example_table ''O'' ''D1'' ''D2''))) \<and>
   committed (snd (delete_all_data (example_conn ''O'' ''D1'' ''D2''))) = Some empty_table \<and>
   get_staffs_by_staff_id 4 (snd (delete_all_data (example_conn ''O'' ''D1'' ''D2''))) =
     Some (Inr (Some []), snd (delete_all_data (example_conn ''O'' ''D1'' ''D2'')))"
proof -
  have w: "working (example_conn ''O'' ''D1'' ''D2'') = Some (example_table ''O'' ''D1'' ''D2'')"
    by (rule example_conn_working)
  have m: "4 \<in> set (map node_id (rows (example_table ''O'' ''D1'' ''D2'')))"
    by (simp add: example_ids)
  have "example_table ''O'' ''D1'' ''D2''\<lparr>rows := []\<rparr> = empty_table"
    by (simp add: example_table_def empty_table_def)
  with wipe_then_resolve_empty [OF w m] w m show ?thesis by simp
qed

lemma make_data_duplicate:
  "make_data_try duplicate_source no_draws fresh_conn =
     (Inl UniqueViolation,
      \<lparr>committed = Some empty_table,
       working = Some \<lparr>rows = [\<lparr>node_id = 1, parent_id = None, name = ''O'', node_type = 1\<rparr>],
                        indexes = [idx_name]\<rparr>,
       stdout = [Created_line]\<rparr>)"
  by (simp add: make_data_try_def duplicate_source_def fresh_conn_def ensure_schema_absent
      import_json_def execute_insert_def empty_table_def)

text \<open>
  C9, as stated, fails: loading a file with a duplicate id into an empty database
  raises in the batch, after the new table and index have been committed. The handler
  rolls back to that commit, so the store is not in its state before the operation
  (there was no table), and \<^verbatim>\<open>make_data\<close> returns normally: the error is printed, the
  caller is not told.
\<close>

theorem rollback_counterexample:
  "fst (make_data_try duplicate_source no_draws fresh_conn) = Inl UniqueViolation \<and>
   make_data duplicate_source no_draws fresh_conn =
     (Inr (), \<lparr>committed = Some empty_table, working = Some empty_table,
               stdout = [Created_line, Error_line UniqueViolation]\<rparr>) \<and>
   committed fresh_conn = None \<and>
   committed (snd (make_data duplicate_source no_draws fresh_conn)) \<noteq> committed fresh_conn"
proof -
  have "make_data duplicate_source no_draws fresh_conn =
     (Inr (), \<lparr>committed = Some empty_table, working = Some empty_table,
               stdout = [Created_line, Error_line UniqueViolation]\<rparr>)"
    by (simp add: make_data_def make_data_duplicate handler_def rollback_def print_def)
  moreover have "committed fresh_conn = None" by (simp add: fresh_conn_def)
  ultimately show ?thesis by (simp add: make_data_duplicate)
qed

text \<open>
  C9, amended. In each of the three operations, an exception raised in the
  \<^verbatim>\<open>try\<close> block is caught: the handler rolls the open transaction back, so the
  working state is the last committed one, prints the error, and the operation
  returns normally without a value; no exception reaches the caller. The committed
  store is the one from before the operation for the resolver and for delete; for
  schema creation and load it is the one from before the operation when the table
  existed, and otherwise the new empty table with its index, committed before the
  load began.
\<close>

theorem handlers_roll_back_and_return:
  "(make_data_try filepath rs c = (Inl e, c1) \<longrightarrow>
      make_data filepath rs c = (Inr (), handler e c1) \<and>
      working (handler e c1) = committed (handler e c1) \<and>
      committed (handler e c1) =
        (if working c = None then Some empty_table else committed c) \<and>
      stdout (handler e c1) =
        (if working c = None then stdout c @ [Created_line, Error_line e]
         else stdout c @ [Error_line e])) \<and>
   (get_staffs_try i c = Some (Inl e, c1) \<longrightarrow>
      get_staffs_by_staff_id i c = Some (Inr None, handler e c1) \<and>
      working (handler e c1) = committed c \<and>
      committed (handler e c1) = committed c \<and>
      stdout (handler e c1) = stdout c @ [Error_line e]) \<and>
   (delete_all_try c = (Inl e, c1) \<longrightarrow>
      delete_all_data c = (Inr (), handler e c1) \<and>
      working (handler e c1) = committed c \<and>
      committed (handler e c1) = committed c \<and>
      stdout (handler e c1) = stdout c @ [Error_line e])"
proof (intro conjI impI)
  assume a: "make_data_try filepath rs c = (Inl e, c1)"
  then show "make_data filepath rs c = (Inr (), handler e c1)"
    by (simp add: make_data_def)
  show "working (handler e c1) = committed (handler e c1)"
    by (simp add: handler_simps)
  from make_data_try_raises [OF a]
  show "committed (handler e c1) =
      (if working c = None then Some empty_table else committed c)"
    by (simp add: handler_simps)
  from make_data_try_raises [OF a]
  show "stdout (handler e c1) =
      (if working c = None then stdout c @ [Created_line, Error_line e]
       else stdout c @ [Error_line e])"
    by (simp add: handler_simps)
next
  assume a: "get_staffs_try i c = Some (Inl e, c1)"
  then have c1: "c1 = c" by (rule get_staffs_try_raises)
  from a show "get_staffs_by_staff_id i c = Some (Inr None, handler e c1)"
    by (simp add: get_staffs_by_staff_id_def)
  from c1 show "working (handler e c1) = committed c"
    "committed (handler e c1) = committed c"
    "stdout (handler e c1) = stdout c @ [Error_line e]"
    by (simp_all add: handler_simps)
next
  assume a: "delete_all_try c = (Inl e, c1)"
  then have c1: "c1 = c" by (auto simp: delete_all_try_def split: option.splits)
  from a show "delete_all_data c = (Inr (), handler e c1)"
    by (simp add: delete_all_data_def)
  from c1 show "working (handler e c1) = committed c"
    "committed (handler e c1) = committed c"
    "stdout (handler e c1) = stdout c @ [Error_line e]"
    by (simp_all add: handler_simps)
qed

theorem handlers_roll_back_and_return_witness:
  "fst (make_data_try duplicate_source no_draws fresh_conn) = Inl UniqueViolation \<and>
   fst (make_data duplicate_source no_draws fresh_conn) = Inr () \<and>
   working (snd (make_data duplicate_source no_draws fresh_conn)) = Some empty_table \<and>
   get_staffs_try 4 fresh_conn = Some (Inl UndefinedTable, fresh_conn) \<and>
   get_staffs_by_staff_id 4 fresh_conn =
     Some (Inr None, handler UndefinedTable fresh_conn) \<and>
   delete_all_try fresh_conn = (Inl UndefinedTable, fresh_conn) \<and>
   delete_all_data fresh_conn = (Inr (), handler UndefinedTable fresh_conn) \<and>
   committed (handler UndefinedTable fresh_conn) = None"
proof -
  let ?c1 = "\<lparr>committed = Some empty_table,
       working = Some \<lparr>rows = [\<lparr>node_id = 1, parent_id = None, name = ''O'', node_type = 1\<rparr>],
                        indexes = [idx_name]\<rparr>,
       stdout = [Created_line]\<rparr>"
  have m: "make_data_try duplicate_source no_draws fresh_conn = (Inl UniqueViolation, ?c1)"
    by (rule make_data_duplicate)
  have g: "get_staffs_try 4 fresh_conn = Some (Inl UndefinedTable, fresh_conn)"
    by (simp add: get_staffs_try_def fresh_conn_def)
  have d: "delete_all_try fresh_conn = (Inl UndefinedTable, fresh_conn)"
    by (simp add: delete_all_try_def fresh_conn_def)
  have n: "working fresh_conn = None" "committed fresh_conn = None"
    by (simp_all add: fresh_conn_def)
  from handlers_roll_back_and_return
         [of duplicate_source no_draws fresh_conn UniqueViolation ?c1 4]
       m n
  have "make_data duplicate_source no_draws fresh_conn = (Inr (), handler UniqueViolation ?c1)"
    "working (handler UniqueViolation ?c1) = Some empty_table"
    by simp_all
  moreover from handlers_roll_back_and_return
         [of None no_draws fresh_conn UndefinedTable fresh_conn 4]
       g d n
  have "get_staffs_by_staff_id 4 fresh_conn = Some (Inr None, handler UndefinedTable fresh_conn)"
    "delete_all_data fresh_conn = (Inr (), handler UndefinedTable fresh_conn)"
    "committed (handler UndefinedTable fresh_conn) = None"
    by simp_all
  ultimately show ?thesis using m g d by simp
qed

section \<open>The generator: counters, blocks and links\<close>

lemma randint_range: "a \<le> b \<Longrightarrow> a \<le> randint rs k a b \<and> randint rs k a b \<le> b"
proof -
  assume "a \<le> b"
  then have "0 < nat (b - a + 1)" by simp
  then have "rs k mod nat (b - a + 1) < nat (b - a + 1)" by (rule mod_less_divisor)
  then show ?thesis by (simp add: randint_def)
qed

lemma staff_count_range:
  "30 \<le> nat (randint rs k 30 1000) \<and> nat (randint rs k 30 1000) \<le> 1000"
  using randint_range [of 30 1000 rs k] by linarith

lemma department_count_range:
  "40 \<le> nat (randint rs k 40 80) \<and> nat (randint rs k 40 80) \<le> 80"
  using randint_range [of 40 80 rs k] by linarith

lemma staff_loop_Suc:
  "staff_loop rs (Suc n) d st =
     (\<lparr>node_id = fst st + 1, parent_id = Some d,
       name = random_name staff_prefix rs (snd st), node_type = 3\<rparr>
        # fst (staff_loop rs n d (fst st + 1, snd st + 1)),
      snd (staff_loop rs n d (fst st + 1, snd st + 1)))"
  by (cases st) (simp add: Let_def split_beta)

lemma department_loop_Suc:
  "department_loop rs (Suc n) p st =
     (\<lparr>node_id = fst st + 1, parent_id = Some p,
       name = random_name department_prefix rs (snd st), node_type = 2\<rparr>
        # fst (staff_loop rs (nat (randint rs (snd st + 1) 30 1000)) (fst st + 1)
                 (fst st + 1, snd st + 2))
        @ fst (department_loop rs n p
                 (snd (staff_loop rs (nat (randint rs (snd st + 1) 30 1000)) (fst st + 1)
                         (fst st + 1, snd st + 2)))),
      snd (department_loop rs n p
             (snd (staff_loop rs (nat (randint rs (snd st + 1) 30 1000)) (fst st + 1)
                     (fst st + 1, snd st + 2)))))"
  by (cases st) (simp add: Let_def split_beta)

lemma office_loop_Suc:
  "office_loop rs (Suc n) st =
     (\<lparr>node_id = fst st + 1, parent_id = None,
       name = random_name office_prefix rs (snd st), node_type = 1\<rparr>
        # fst (department_loop rs (nat (randint rs (snd st + 1) 40 80)) (fst st + 1)
                 (fst st + 1, snd st + 2))
        @ fst (office_loop rs n
                 (snd (department_loop rs (nat (randint rs (snd st + 1) 40 80)) (fst st + 1)
                         (fst st + 1, snd st + 2)))),
      snd (office_loop rs n
             (snd (department_loop rs (nat (randint rs (snd st + 1) 40 80)) (fst st + 1)
                     (fst st + 1, snd st + 2)))))"
  by (cases st) (simp add: Let_def split_beta)

lemma staff_loop_0: "staff_loop rs 0 d st = ([], st)"
  by (cases st) simp

lemma department_loop_0: "department_loop rs 0 p st = ([], st)"
  by (cases st) simp

lemma office_loop_0: "office_loop rs 0 st = ([], st)"
  by (cases st) simp


lemma staff_loop_counter: "fst (snd (staff_loop rs n d st)) = fst st + int n"
  by (induction n arbitrary: st) (simp_all add: staff_loop_0 staff_loop_Suc)

lemma staff_loop_length: "length (fst (staff_loop rs n d st)) = n"
  by (induction n arbitrary: st) (simp_all add: staff_loop_0 staff_loop_Suc)

lemma staff_loop_nodes:
  "r \<in> set (fst (staff_loop rs n d st)) \<Longrightarrow> node_type r = 3 \<and> parent_id r = Some d"
  by (induction n arbitrary: st) (auto simp: staff_loop_0 staff_loop_Suc)

lemma staff_loop_ids:
  "map node_id (fst (staff_loop rs n d st)) = [fst st + 1..fst st + int n]"
proof (induction n arbitrary: st)
  case 0
  then show ?case by (simp add: staff_loop_0)
next
  case (Suc n)
  have "[fst st + 1..fst st + int (Suc n)] = (fst st + 1) # [fst st + 1 + 1..fst st + 1 + int n]"
    by (simp add: upto_rec1 add.commute add.left_commute)
  with Suc show ?case by (simp add: staff_loop_Suc)
qed

lemma upto_append: "i \<le> j \<Longrightarrow> j \<le> k \<Longrightarrow> [i + 1..j] @ [j + 1..k] = [i + 1..k]"
  using upto_split2 [of "i + 1" j k]
  by (cases "i = j") (simp_all)


lemma block_ids:
  assumes "i + 1 \<le> j" and "j \<le> k"
  shows "[i + 1..k] = (i + 1) # [i + 1 + 1..j] @ [j + 1..k]"
proof -
  have "[i + 1..k] = (i + 1) # [i + 1 + 1..k]" using assms by (simp add: upto_rec1)
  moreover have "[i + 1 + 1..j] @ [j + 1..k] = [i + 1 + 1..k]"
    using assms by (intro upto_append) simp_all
  ultimately show ?thesis by simp
qed

lemma department_loop_ids:
  "fst st \<le> fst (snd (department_loop rs n p st)) \<and>
   map node_id (fst (department_loop rs n p st)) =
     [fst st + 1..fst (snd (department_loop rs n p st))]"
proof (induction n arbitrary: st)
  case 0
  then show ?case by (simp add: department_loop_0)
next
  case (Suc n)
  define S where "S = staff_loop rs (nat (randint rs (snd st + 1) 30 1000)) (fst st + 1)
                        (fst st + 1, snd st + 2)"
  define R where "R = department_loop rs n p (snd S)"
  have step: "department_loop rs (Suc n) p st =
      (\<lparr>node_id = fst st + 1, parent_id = Some p,
        name = random_name department_prefix rs (snd st), node_type = 2\<rparr> # fst S @ fst R,
       snd R)"
    unfolding R_def S_def by (rule department_loop_Suc)
  have s: "fst st + 1 \<le> fst (snd S)" by (simp add: S_def staff_loop_counter)
  have ids: "map node_id (fst S) = [fst st + 1 + 1..fst (snd S)]"
    by (simp add: S_def staff_loop_ids staff_loop_counter)
  from Suc [of "snd S"] have r: "fst (snd S) \<le> fst (snd R)"
    "map node_id (fst R) = [fst (snd S) + 1..fst (snd R)]"
    by (simp_all add: R_def)
  from s r(1) have "fst st \<le> fst (snd R)" by linarith
  moreover have "map node_id (fst (department_loop rs (Suc n) p st)) = [fst st + 1..fst (snd R)]"
    by (simp only: step fst_conv list.map map_append node.select_convs ids r(2)
        block_ids [OF s r(1)])
  ultimately show ?case by (simp only: step snd_conv simp_thms)
qed

lemma office_loop_ids:
  "fst st \<le> fst (snd (office_loop rs n st)) \<and>
   map node_id (fst (office_loop rs n st)) = [fst st + 1..fst (snd (office_loop rs n st))]"
proof (induction n arbitrary: st)
  case 0
  then show ?case by (simp add: office_loop_0)
next
  case (Suc n)
  define D where "D = department_loop rs (nat (randint rs (snd st + 1) 40 80)) (fst st + 1)
                        (fst st + 1, snd st + 2)"
  define R where "R = office_loop rs n (snd D)"
  have step: "office_loop rs (Suc n) st =
      (\<lparr>node_id = fst st + 1, parent_id = None,
        name = random_name office_prefix rs (snd st), node_type = 1\<rparr> # fst D @ fst R,
       snd R)"
    unfolding R_def D_def by (rule office_loop_Suc)
  from department_loop_ids [of "(fst st + 1, snd st + 2)" rs _ "fst st + 1"]
  have d: "fst st + 1 \<le> fst (snd D)" "map node_id (fst D) = [fst st + 1 + 1..fst (snd D)]"
    by (simp_all add: D_def)
  from Suc [of "snd D"] have r: "fst (snd D) \<le> fst (snd R)"
    "map node_id (fst R) = [fst (snd D) + 1..fst (snd R)]"
    by (simp_all add: R_def)
  from d(1) r(1) have "fst st \<le> fst (snd R)" by linarith
  moreover have "map node_id (fst (office_loop rs (Suc n) st)) = [fst st + 1..fst (snd R)]"
    by (simp only: step fst_conv list.map map_append node.select_convs d(2) r(2)
        block_ids [OF d(1) r(1)])
  ultimately show ?case by (simp only: step snd_conv simp_thms)
qed

lemma ids_bounds:
  assumes "map node_id xs = [i + 1..j]" and "r \<in> set xs"
  shows "i < node_id r \<and> node_id r \<le> j"
proof -
  have "node_id r \<in> set (map node_id xs)" using assms(2) by simp
  then have "node_id r \<in> {i + 1..j}" by (simp only: assms(1) set_upto)
  then show ?thesis by simp
qed


lemma department_loop_nodes:
  "r \<in> set (fst (department_loop rs n p st)) \<Longrightarrow>
   (node_type r = 2 \<and> parent_id r = Some p) \<or>
   (node_type r = 3 \<and> (\<exists>q. parent_id r = Some q \<and> fst st < q \<and> q < node_id r))"
proof (induction n arbitrary: st)
  case 0
  then show ?case by (simp add: department_loop_0)
next
  case (Suc n)
  define S where "S = staff_loop rs (nat (randint rs (snd st + 1) 30 1000)) (fst st + 1)
                        (fst st + 1, snd st + 2)"
  define R where "R = department_loop rs n p (snd S)"
  define d where "d = \<lparr>node_id = fst st + 1, parent_id = Some p,
        name = random_name department_prefix rs (snd st), node_type = 2\<rparr>"
  have step: "department_loop rs (Suc n) p st = (d # fst S @ fst R, snd R)"
    unfolding R_def S_def d_def by (rule department_loop_Suc)
  have s: "fst st + 1 \<le> fst (snd S)" by (simp add: S_def staff_loop_counter)
  have ids: "map node_id (fst S) = [fst st + 1 + 1..fst (snd S)]"
    by (simp add: S_def staff_loop_ids staff_loop_counter)
  from Suc.prems have "r = d \<or> r \<in> set (fst S) \<or> r \<in> set (fst R)"
    by (simp add: step)
  then show ?case
  proof (elim disjE)
    assume "r = d"
    then show ?thesis by (simp add: d_def)
  next
    assume a: "r \<in> set (fst S)"
    then have "node_type r = 3 \<and> parent_id r = Some (fst st + 1)"
      unfolding S_def by (rule staff_loop_nodes)
    moreover from ids_bounds [OF ids a] have "fst st + 1 < node_id r" by simp
    ultimately show ?thesis by simp
  next
    assume "r \<in> set (fst R)"
    then have "(node_type r = 2 \<and> parent_id r = Some p) \<or>
        (node_type r = 3 \<and> (\<exists>q. parent_id r = Some q \<and> fst (snd S) < q \<and> q < node_id r))"
      unfolding R_def by (rule Suc.IH)
    with s show ?thesis by force
  qed
qed

lemma staff_loop_no_type:
  "t \<noteq> 3 \<Longrightarrow> filter (\<lambda>r. node_type r = t) (fst (staff_loop rs n d st)) = []"
  by (auto simp: filter_empty_conv dest: staff_loop_nodes)

lemma department_loop_count:
  "length (filter (\<lambda>r. node_type r = 2) (fst (department_loop rs n p st))) = n"
proof (induction n arbitrary: st)
  case 0
  then show ?case by (simp add: department_loop_0)
next
  case (Suc n)
  then show ?case by (simp add: department_loop_Suc staff_loop_no_type)
qed

lemma department_loop_no_office:
  "filter (\<lambda>r. node_type r = 1) (fst (department_loop rs n p st)) = []"
  by (auto simp: filter_empty_conv dest: department_loop_nodes)

lemma children_Cons:
  "children t q (x # xs) =
     (if node_type x = t \<and> parent_id x = Some q then x # children t q xs else children t q xs)"
  by (simp add: children_def)

lemma children_append: "children t q (xs @ ys) = children t q xs @ children t q ys"
  by (simp add: children_def)

lemma staff_loop_children:
  "children 3 q (fst (staff_loop rs n d st)) = (if q = d then fst (staff_loop rs n d st) else [])"
  by (auto simp: children_def filter_empty_conv filter_id_conv dest: staff_loop_nodes)

lemma department_loop_no_children:
  "q \<le> fst st \<Longrightarrow> children 3 q (fst (department_loop rs n p st)) = []"
  by (auto simp: children_def filter_empty_conv dest!: department_loop_nodes)

lemma department_loop_children:
  "d \<in> set (fst (department_loop rs n p st)) \<Longrightarrow> node_type d = 2 \<Longrightarrow>
   30 \<le> length (children 3 (node_id d) (fst (department_loop rs n p st))) \<and>
   length (children 3 (node_id d) (fst (department_loop rs n p st))) \<le> 1000"
proof (induction n arbitrary: st)
  case 0
  then show ?case by (simp add: department_loop_0)
next
  case (Suc n)
  define m where "m = nat (randint rs (snd st + 1) 30 1000)"
  define S where "S = staff_loop rs m (fst st + 1) (fst st + 1, snd st + 2)"
  define R where "R = department_loop rs n p (snd S)"
  define d0 where "d0 = \<lparr>node_id = fst st + 1, parent_id = Some p,
        name = random_name department_prefix rs (snd st), node_type = 2\<rparr>"
  have step: "department_loop rs (Suc n) p st = (d0 # fst S @ fst R, snd R)"
    unfolding R_def S_def d0_def m_def by (rule department_loop_Suc)
  have m: "30 \<le> m \<and> m \<le> 1000" unfolding m_def by (rule staff_count_range)
  have s: "fst (snd S) = fst st + 1 + int m" by (simp add: S_def staff_loop_counter)
  have len: "length (fst S) = m" by (simp add: S_def staff_loop_length)
  have ch: "children 3 (node_id d) (fst (department_loop rs (Suc n) p st)) =
      children 3 (node_id d) (fst S) @ children 3 (node_id d) (fst R)"
    by (simp add: step children_Cons children_append d0_def)
  from Suc.prems(1) have "d = d0 \<or> d \<in> set (fst S) \<or> d \<in> set (fst R)"
    by (simp add: step)
  then show ?case
  proof (elim disjE)
    assume "d = d0"
    then have i: "node_id d = fst st + 1" by (simp add: d0_def)
    then have "children 3 (node_id d) (fst S) = fst S"
      by (simp add: S_def staff_loop_children)
    moreover have "children 3 (node_id d) (fst R) = []"
      unfolding R_def by (rule department_loop_no_children) (simp add: i s)
    ultimately show ?thesis using m len by (simp only: ch append_Nil2)
  next
    assume "d \<in> set (fst S)"
    then have "node_type d = 3" unfolding S_def by (auto dest: staff_loop_nodes)
    with Suc.prems(2) show ?thesis by simp
  next
    assume a: "d \<in> set (fst R)"
    from department_loop_ids [of "snd S" rs n p]
    have "map node_id (fst R) = [fst (snd S) + 1..fst (snd R)]" by (simp add: R_def)
    from ids_bounds [OF this a] s have "node_id d \<noteq> fst st + 1" by simp
    then have "children 3 (node_id d) (fst S) = []"
      by (simp add: S_def staff_loop_children)
    moreover from a Suc.prems(2)
    have "30 \<le> length (children 3 (node_id d) (fst R)) \<and>
          length (children 3 (node_id d) (fst R)) \<le> 1000"
      unfolding R_def by (rule Suc.IH)
    ultimately show ?thesis by (simp only: ch append_Nil)
  qed
qed


lemma department_loop_children_2:
  "children 2 q (fst (department_loop rs n p st)) =
     (if q = p then filter (\<lambda>r. node_type r = 2) (fst (department_loop rs n p st)) else [])"
proof (cases "q = p")
  case True
  have "filter (\<lambda>r. node_type r = 2 \<and> parent_id r = Some p) (fst (department_loop rs n p st)) =
      filter (\<lambda>r. node_type r = 2) (fst (department_loop rs n p st))"
    by (rule filter_cong [OF refl]) (auto dest: department_loop_nodes)
  with True show ?thesis by (simp add: children_def)
next
  case False
  then show ?thesis
    by (auto simp: children_def filter_empty_conv dest!: department_loop_nodes)
qed

lemma department_loop_children_above:
  assumes "fst (snd (department_loop rs n p st)) < q"
  shows "children 3 q (fst (department_loop rs n p st)) = []"
proof -
  have "\<And>r. r \<in> set (fst (department_loop rs n p st)) \<Longrightarrow> node_type r = 3 \<Longrightarrow>
            parent_id r \<noteq> Some q"
  proof
    fix r
    assume a: "r \<in> set (fst (department_loop rs n p st))" "node_type r = 3" "parent_id r = Some q"
    from department_loop_nodes [OF a(1)] a(2,3) have "q < node_id r" by auto
    moreover from department_loop_ids [of st rs n p]
    have "map node_id (fst (department_loop rs n p st)) =
        [fst st + 1..fst (snd (department_loop rs n p st))]" by simp
    from ids_bounds [OF this a(1)] have "node_id r \<le> fst (snd (department_loop rs n p st))"
      by simp
    ultimately show False using assms by simp
  qed
  then show ?thesis by (auto simp: children_def filter_empty_conv)
qed

lemma office_loop_nodes:
  "r \<in> set (fst (office_loop rs n st)) \<Longrightarrow>
   (node_type r = 1 \<and> parent_id r = None) \<or>
   ((node_type r = 2 \<or> node_type r = 3) \<and>
    (\<exists>q. parent_id r = Some q \<and> fst st < q \<and> q < node_id r))"
proof (induction n arbitrary: st)
  case 0
  then show ?case by (simp add: office_loop_0)
next
  case (Suc n)
  define D where "D = department_loop rs (nat (randint rs (snd st + 1) 40 80)) (fst st + 1)
                        (fst st + 1, snd st + 2)"
  define R where "R = office_loop rs n (snd D)"
  define p where "p = \<lparr>node_id = fst st + 1, parent_id = None,
        name = random_name office_prefix rs (snd st), node_type = 1\<rparr>"
  have step: "office_loop rs (Suc n) st = (p # fst D @ fst R, snd R)"
    unfolding R_def D_def p_def by (rule office_loop_Suc)
  from department_loop_ids [of "(fst st + 1, snd st + 2)" rs _ "fst st + 1"]
  have d: "fst st + 1 \<le> fst (snd D)" "map node_id (fst D) = [fst st + 1 + 1..fst (snd D)]"
    by (simp_all add: D_def)
  from Suc.prems have "r = p \<or> r \<in> set (fst D) \<or> r \<in> set (fst R)"
    by (simp add: step)
  then show ?case
  proof (elim disjE)
    assume "r = p"
    then show ?thesis by (simp add: p_def)
  next
    assume a: "r \<in> set (fst D)"
    then have "(node_type r = 2 \<and> parent_id r = Some (fst st + 1)) \<or>
        (node_type r = 3 \<and> (\<exists>q. parent_id r = Some q \<and> fst st + 1 < q \<and> q < node_id r))"
      unfolding D_def by (auto dest: department_loop_nodes)
    moreover from ids_bounds [OF d(2) a] have "fst st + 1 < node_id r" by simp
    ultimately show ?thesis by force
  next
    assume "r \<in> set (fst R)"
    then have "(node_type r = 1 \<and> parent_id r = None) \<or>
        ((node_type r = 2 \<or> node_type r = 3) \<and>
         (\<exists>q. parent_id r = Some q \<and> fst (snd D) < q \<and> q < node_id r))"
      unfolding R_def by (rule Suc.IH)
    with d(1) show ?thesis by force
  qed
qed

lemma office_loop_count:
  "length (filter (\<lambda>r. node_type r = 1) (fst (office_loop rs n st))) = n"
proof (induction n arbitrary: st)
  case 0
  then show ?case by (simp add: office_loop_0)
next
  case (Suc n)
  then show ?case by (simp add: office_loop_Suc department_loop_no_office)
qed

lemma office_loop_no_children:
  "q \<le> fst st \<Longrightarrow> children t q (fst (office_loop rs n st)) = []"
  by (auto simp: children_def filter_empty_conv dest!: office_loop_nodes)

lemma office_loop_children_2:
  "p \<in> set (fst (office_loop rs n st)) \<Longrightarrow> node_type p = 1 \<Longrightarrow>
   40 \<le> length (children 2 (node_id p) (fst (office_loop rs n st))) \<and>
   length (children 2 (node_id p) (fst (office_loop rs n st))) \<le> 80"
proof (induction n arbitrary: st)
  case 0
  then show ?case by (simp add: office_loop_0)
next
  case (Suc n)
  define m where "m = nat (randint rs (snd st + 1) 40 80)"
  define D where "D = department_loop rs m (fst st + 1) (fst st + 1, snd st + 2)"
  define R where "R = office_loop rs n (snd D)"
  define p0 where "p0 = \<lparr>node_id = fst st + 1, parent_id = None,
        name = random_name office_prefix rs (snd st), node_type = 1\<rparr>"
  have step: "office_loop rs (Suc n) st = (p0 # fst D @ fst R, snd R)"
    unfolding R_def D_def p0_def m_def by (rule office_loop_Suc)
  have m: "40 \<le> m \<and> m \<le> 80" unfolding m_def by (rule department_count_range)
  from department_loop_ids [of "(fst st + 1, snd st + 2)" rs m "fst st + 1"]
  have d: "fst st + 1 \<le> fst (snd D)" by (simp add: D_def)
  have ch: "children 2 (node_id p) (fst (office_loop rs (Suc n) st)) =
      children 2 (node_id p) (fst D) @ children 2 (node_id p) (fst R)"
    by (simp add: step children_Cons children_append p0_def)
  from Suc.prems(1) have "p = p0 \<or> p \<in> set (fst D) \<or> p \<in> set (fst R)"
    by (simp add: step)
  then show ?case
  proof (elim disjE)
    assume "p = p0"
    then have i: "node_id p = fst st + 1" by (simp add: p0_def)
    then have "length (children 2 (node_id p) (fst D)) = m"
      by (simp add: D_def department_loop_children_2 department_loop_count)
    moreover have "children 2 (node_id p) (fst R) = []"
      unfolding R_def by (rule office_loop_no_children) (simp add: i d)
    ultimately show ?thesis using m by (simp only: ch append_Nil2)
  next
    assume "p \<in> set (fst D)"
    then have "node_type p = 2 \<or> node_type p = 3"
      unfolding D_def by (auto dest: department_loop_nodes)
    with Suc.prems(2) show ?thesis by simp
  next
    assume a: "p \<in> set (fst R)"
    from office_loop_ids [of "snd D" rs n]
    have "map node_id (fst R) = [fst (snd D) + 1..fst (snd R)]" by (simp add: R_def)
    from ids_bounds [OF this a] d have "node_id p \<noteq> fst st + 1" by simp
    then have "children 2 (node_id p) (fst D) = []"
      by (simp add: D_def department_loop_children_2)
    moreover from a Suc.prems(2)
    have "40 \<le> length (children 2 (node_id p) (fst R)) \<and>
          length (children 2 (node_id p) (fst R)) \<le> 80"
      unfolding R_def by (rule Suc.IH)
    ultimately show ?thesis by (simp only: ch append_Nil)
  qed
qed

lemma office_loop_children_3:
  "d \<in> set (fst (office_loop rs n st)) \<Longrightarrow> node_type d = 2 \<Longrightarrow>
   30 \<le> length (children 3 (node_id d) (fst (office_loop rs n st))) \<and>
   length (children 3 (node_id d) (fst (office_loop rs n st))) \<le> 1000"
proof (induction n arbitrary: st)
  case 0
  then show ?case by (simp add: office_loop_0)
next
  case (Suc n)
  define D where "D = department_loop rs (nat (randint rs (snd st + 1) 40 80)) (fst st + 1)
                        (fst st + 1, snd st + 2)"
  define R where "R = office_loop rs n (snd D)"
  define p0 where "p0 = \<lparr>node_id = fst st + 1, parent_id = None,
        name = random_name office_prefix rs (snd st), node_type = 1\<rparr>"
  have step: "office_loop rs (Suc n) st = (p0 # fst D @ fst R, snd R)"
    unfolding R_def D_def p0_def by (rule office_loop_Suc)
  from department_loop_ids [of "(fst st + 1, snd st + 2)" rs _ "fst st + 1"]
  have ids: "map node_id (fst D) = [fst st + 1 + 1..fst (snd D)]"
    by (simp add: D_def)
  have ch: "children 3 (node_id d) (fst (office_loop rs (Suc n) st)) =
      children 3 (node_id d) (fst D) @ children 3 (node_id d) (fst R)"
    by (simp add: step children_Cons children_append p0_def)
  from Suc.prems(1) have "d = p0 \<or> d \<in> set (fst D) \<or> d \<in> set (fst R)"
    by (simp add: step)
  then show ?case
  proof (elim disjE)
    assume "d = p0"
    with Suc.prems(2) show ?thesis by (simp add: p0_def)
  next
    assume a: "d \<in> set (fst D)"
    from ids_bounds [OF ids a] have "node_id d \<le> fst (snd D)" by simp
    then have "children 3 (node_id d) (fst R) = []"
      unfolding R_def by (rule office_loop_no_children)
    moreover from a Suc.prems(2)
    have "30 \<le> length (children 3 (node_id d) (fst D)) \<and>
          length (children 3 (node_id d) (fst D)) \<le> 1000"
      unfolding D_def by (rule department_loop_children)
    ultimately show ?thesis by (simp only: ch append_Nil2)
  next
    assume a: "d \<in> set (fst R)"
    from office_loop_ids [of "snd D" rs n]
    have "map node_id (fst R) = [fst (snd D) + 1..fst (snd R)]" by (simp add: R_def)
    from ids_bounds [OF this a] have "fst (snd D) < node_id d" by simp
    then have "children 3 (node_id d) (fst D) = []"
      unfolding D_def by (rule department_loop_children_above)
    moreover from a Suc.prems(2)
    have "30 \<le> length (children 3 (node_id d) (fst R)) \<and>
          length (children 3 (node_id d) (fst R)) \<le> 1000"
      unfolding R_def by (rule Suc.IH)
    ultimately show ?thesis by (simp only: ch append_Nil)
  qed
qed


lemma link_ok_mono: "set seen \<subseteq> set seen' \<Longrightarrow> link_ok seen r \<Longrightarrow> link_ok seen' r"
  unfolding link_ok_def by blast

lemma linked_mono: "set seen \<subseteq> set seen' \<Longrightarrow> linked seen xs \<Longrightarrow> linked seen' xs"
proof (induction xs arbitrary: seen seen')
  case Nil
  then show ?case by simp
next
  case (Cons x xs)
  from Cons.prems have "link_ok seen' x" by (auto intro: link_ok_mono)
  moreover have "linked (seen' @ [x]) xs"
    by (rule Cons.IH [of "seen @ [x]"]) (use Cons.prems in auto)
  ultimately show ?case by simp
qed

lemma linked_append: "linked seen (xs @ ys) = (linked seen xs \<and> linked (seen @ xs) ys)"
  by (induction xs arbitrary: seen) simp_all

lemma staff_loop_linked:
  "\<exists>q \<in> set seen. node_type q = 2 \<and> node_id q = d \<Longrightarrow>
   linked seen (fst (staff_loop rs n d st))"
proof (induction n arbitrary: seen st)
  case 0
  then show ?case by (simp add: staff_loop_0)
next
  case (Suc n)
  have "linked (seen @ [\<lparr>node_id = fst st + 1, parent_id = Some d,
           name = random_name staff_prefix rs (snd st), node_type = 3\<rparr>])
         (fst (staff_loop rs n d (fst st + 1, snd st + 1)))"
    by (rule Suc.IH) (use Suc.prems in auto)
  moreover from Suc.prems
  have "link_ok seen \<lparr>node_id = fst st + 1, parent_id = Some d,
           name = random_name staff_prefix rs (snd st), node_type = 3\<rparr>"
    by (auto simp: link_ok_def)
  ultimately show ?case by (simp add: staff_loop_Suc)
qed

lemma department_loop_linked:
  "\<exists>q \<in> set seen. node_type q = 1 \<and> node_id q = p \<Longrightarrow>
   linked seen (fst (department_loop rs n p st))"
proof (induction n arbitrary: seen st)
  case 0
  then show ?case by (simp add: department_loop_0)
next
  case (Suc n)
  define S where "S = staff_loop rs (nat (randint rs (snd st + 1) 30 1000)) (fst st + 1)
                        (fst st + 1, snd st + 2)"
  define R where "R = department_loop rs n p (snd S)"
  define d where "d = \<lparr>node_id = fst st + 1, parent_id = Some p,
        name = random_name department_prefix rs (snd st), node_type = 2\<rparr>"
  have step: "department_loop rs (Suc n) p st = (d # fst S @ fst R, snd R)"
    unfolding R_def S_def d_def by (rule department_loop_Suc)
  from Suc.prems have "link_ok seen d" by (auto simp: link_ok_def d_def)
  moreover have "linked (seen @ [d]) (fst S)"
    unfolding S_def by (rule staff_loop_linked) (simp add: d_def)
  moreover have "linked ((seen @ [d]) @ fst S) (fst R)"
    unfolding R_def by (rule Suc.IH) (use Suc.prems in auto)
  ultimately show ?case by (simp add: step linked_append)
qed

lemma office_loop_linked: "linked seen (fst (office_loop rs n st))"
proof (induction n arbitrary: seen st)
  case 0
  then show ?case by (simp add: office_loop_0)
next
  case (Suc n)
  define D where "D = department_loop rs (nat (randint rs (snd st + 1) 40 80)) (fst st + 1)
                        (fst st + 1, snd st + 2)"
  define R where "R = office_loop rs n (snd D)"
  define p where "p = \<lparr>node_id = fst st + 1, parent_id = None,
        name = random_name office_prefix rs (snd st), node_type = 1\<rparr>"
  have step: "office_loop rs (Suc n) st = (p # fst D @ fst R, snd R)"
    unfolding R_def D_def p_def by (rule office_loop_Suc)
  have "link_ok seen p" by (simp add: link_ok_def p_def)
  moreover have "linked (seen @ [p]) (fst D)"
    unfolding D_def by (rule department_loop_linked) (simp add: p_def)
  moreover have "linked ((seen @ [p]) @ fst D) (fst R)"
    unfolding R_def by (rule Suc.IH)
  ultimately show ?case by (simp add: step linked_append)
qed

lemma linked_nth:
  "linked seen xs \<Longrightarrow> j < length xs \<Longrightarrow> link_ok (seen @ take j xs) (xs ! j)"
proof (induction xs arbitrary: seen j)
  case Nil
  then show ?case by simp
next
  case (Cons x xs)
  show ?case
  proof (cases j)
    case 0
    with Cons.prems show ?thesis by simp
  next
    case (Suc j')
    with Cons.prems have "link_ok ((seen @ [x]) @ take j' xs) (xs ! j')"
      by (intro Cons.IH) simp_all
    with Suc show ?thesis by simp
  qed
qed

lemma linked_member:
  assumes "linked seen xs" and "r \<in> set xs"
  shows "link_ok (seen @ xs) r"
proof -
  from assms(2) obtain j where j: "j < length xs" "xs ! j = r"
    by (auto simp: in_set_conv_nth)
  from linked_nth [OF assms(1) j(1)] j(2) have "link_ok (seen @ take j xs) r" by simp
  moreover have "set (seen @ take j xs) \<subseteq> set (seen @ xs)"
    using set_take_subset [of j xs] by auto
  ultimately show ?thesis by (rule link_ok_mono [rotated])
qed

lemma take_member_nth: "p \<in> set (take j xs) \<Longrightarrow> \<exists>i<j. i < length xs \<and> xs ! i = p"
  by (auto simp: in_set_conv_nth)

lemma create_random_data_ids:
  "map node_id (create_random_data rs) = [1..int (length (create_random_data rs))]"
proof -
  let ?L = "office_loop rs 100 (0, 0)"
  from office_loop_ids [of "(0, 0)" rs 100]
  have a: "0 \<le> fst (snd ?L)" "map node_id (fst ?L) = [1..fst (snd ?L)]" by simp_all
  from a(2) have "length (fst ?L) = length [1..fst (snd ?L)]" by (metis length_map)
  with a(1) have "int (length (fst ?L)) = fst (snd ?L)" by simp
  with a(2) show ?thesis by (simp add: create_random_data_def)
qed

lemma create_random_data_wf: "wf_forest (create_random_data rs)"
proof -
  have "distinct (map node_id (create_random_data rs))"
    by (simp only: create_random_data_ids distinct_upto)
  moreover have "\<forall>r \<in> set (create_random_data rs). link_ok (create_random_data rs) r"
    using linked_member [OF office_loop_linked [of "[]" rs 100 "(0, 0)"]]
    by (simp add: create_random_data_def)
  ultimately show ?thesis by (simp add: wf_forest_def link_ok_def)
qed


lemma office_loop_first_children:
  "length (children 2 (fst st + 1) (fst (office_loop rs (Suc n) st))) =
     nat (randint rs (snd st + 1) 40 80)"
proof -
  define D where "D = department_loop rs (nat (randint rs (snd st + 1) 40 80)) (fst st + 1)
                        (fst st + 1, snd st + 2)"
  define R where "R = office_loop rs n (snd D)"
  from department_loop_ids [of "(fst st + 1, snd st + 2)" rs _ "fst st + 1"]
  have d: "fst st + 1 \<le> fst (snd D)" by (simp add: D_def)
  have "children 2 (fst st + 1) (fst (office_loop rs (Suc n) st)) =
      children 2 (fst st + 1) (fst D) @ children 2 (fst st + 1) (fst R)"
    by (simp add: office_loop_Suc children_Cons children_append D_def R_def)
  moreover have "length (children 2 (fst st + 1) (fst D)) = nat (randint rs (snd st + 1) 40 80)"
    by (simp add: D_def department_loop_children_2 department_loop_count)
  moreover have "children 2 (fst st + 1) (fst R) = []"
    unfolding R_def using d by (rule office_loop_no_children)
  ultimately show ?thesis by simp
qed

lemma department_loop_first_children:
  "length (children 3 (fst st + 1) (fst (department_loop rs (Suc n) p st))) =
     nat (randint rs (snd st + 1) 30 1000)"
proof -
  define S where "S = staff_loop rs (nat (randint rs (snd st + 1) 30 1000)) (fst st + 1)
                        (fst st + 1, snd st + 2)"
  define R where "R = department_loop rs n p (snd S)"
  have s: "fst st + 1 \<le> fst (snd S)" by (simp add: S_def staff_loop_counter)
  have "children 3 (fst st + 1) (fst (department_loop rs (Suc n) p st)) =
      children 3 (fst st + 1) (fst S) @ children 3 (fst st + 1) (fst R)"
    by (simp add: department_loop_Suc children_Cons children_append S_def R_def)
  moreover have "length (children 3 (fst st + 1) (fst S)) = nat (randint rs (snd st + 1) 30 1000)"
    by (simp add: S_def staff_loop_children staff_loop_length)
  moreover have "children 3 (fst st + 1) (fst R) = []"
    unfolding R_def using s by (rule department_loop_no_children)
  ultimately show ?thesis by simp
qed

lemma office_loop_100: "office_loop rs 100 st = office_loop rs (Suc 99) st"
  by simp

lemma office_loop_first:
  "fst (office_loop rs (Suc n) (0, 0)) =
     \<lparr>node_id = 1, parent_id = None, name = random_name office_prefix rs 0, node_type = 1\<rparr> #
     fst (department_loop rs (nat (randint rs 1 40 80)) 1 (1, 2)) @
     fst (office_loop rs n (snd (department_loop rs (nat (randint rs 1 40 80)) 1 (1, 2))))"
  by (simp only: office_loop_Suc fst_conv snd_conv add_0)

lemma department_loop_first:
  "fst (department_loop rs (Suc n) 1 (1, 2)) =
     \<lparr>node_id = 2, parent_id = Some 1, name = random_name department_prefix rs 2,
      node_type = 2\<rparr> #
     fst (staff_loop rs (nat (randint rs 3 30 1000)) 2 (2, 4)) @
     fst (department_loop rs n 1 (snd (staff_loop rs (nat (randint rs 3 30 1000)) 2 (2, 4))))"
proof -
  have a: "(1::int) + 1 = 2" "(2::nat) + 1 = 3" "(2::nat) + 2 = 4" by simp_all
  show ?thesis by (simp only: department_loop_Suc fst_conv snd_conv a)
qed

lemma staff_loop_first:
  "fst (staff_loop rs (Suc n) 2 (2, 4)) =
     \<lparr>node_id = 3, parent_id = Some 2, name = random_name staff_prefix rs 4, node_type = 3\<rparr> #
     fst (staff_loop rs n 2 (3, 5))"
proof -
  have a: "(2::int) + 1 = 3" "(4::nat) + 1 = 5" by simp_all
  show ?thesis by (simp only: staff_loop_Suc fst_conv snd_conv a)
qed

lemma create_random_data_first:
  "create_random_data rs =
     \<lparr>node_id = 1, parent_id = None, name = random_name office_prefix rs 0, node_type = 1\<rparr> #
     fst (department_loop rs (nat (randint rs 1 40 80)) 1 (1, 2)) @
     fst (office_loop rs 99 (snd (department_loop rs (nat (randint rs 1 40 80)) 1 (1, 2))))"
  by (simp only: create_random_data_def office_loop_100 office_loop_first)

lemma first_office_children:
  "length (children 2 1 (create_random_data rs)) = nat (randint rs 1 40 80)"
proof -
  have "create_random_data rs = fst (office_loop rs (Suc 99) (0, 0))"
    by (simp only: create_random_data_def office_loop_100)
  moreover from office_loop_first_children [of "(0, 0)" rs 99]
  have "length (children 2 1 (fst (office_loop rs (Suc 99) (0, 0)))) = nat (randint rs 1 40 80)"
    by (simp del: office_loop.simps)
  ultimately show ?thesis by (simp only:)
qed

lemma first_department_children:
  "length (children 3 2 (create_random_data rs)) = nat (randint rs 3 30 1000)"
proof -
  define m where "m = nat (randint rs 1 40 80)"
  define D where "D = department_loop rs m 1 (1, 2)"
  define R where "R = office_loop rs 99 (snd D)"
  have "40 \<le> m" unfolding m_def using department_count_range [of rs 1] by simp
  then obtain m' where m': "m = Suc m'" by (cases m) simp_all
  have "children 3 2 (create_random_data rs) = children 3 2 (fst D) @ children 3 2 (fst R)"
    by (simp add: create_random_data_first children_Cons children_append D_def R_def m_def)
  moreover from department_loop_first_children [of "(1, 2)" rs m' 1]
  have "length (children 3 2 (fst D)) = nat (randint rs 3 30 1000)"
    by (simp add: D_def m' del: department_loop.simps)
  moreover have "children 3 2 (fst R) = []"
  proof -
    from department_loop_ids [of "(1, 2)" rs m 1] have "1 \<le> fst (snd D)" by (simp add: D_def)
    moreover have "fst (snd D) \<noteq> 1"
    proof
      assume "fst (snd D) = 1"
      with department_loop_ids [of "(1, 2)" rs m 1] have "fst D = []" by (simp add: D_def)
      with department_loop_count [of rs m 1 "(1, 2)"] m' show False by (simp add: D_def)
    qed
    ultimately have "2 \<le> fst (snd D)" by simp
    then show ?thesis unfolding R_def by (rule office_loop_no_children)
  qed
  ultimately show ?thesis by simp
qed

lemma randint_attains:
  assumes "a \<le> v" and "v \<le> b"
  shows "randint (\<lambda>k. nat (v - a)) k a b = v"
proof -
  from assms have "nat (v - a) < nat (b - a + 1)" by simp
  then have "nat (v - a) mod nat (b - a + 1) = nat (v - a)" by (rule mod_less)
  with assms show ?thesis by (simp add: randint_def)
qed

lemma department_count_attained:
  assumes "40 \<le> m" and "m \<le> 80"
  shows "\<exists>rs. length (children 2 1 (create_random_data rs)) = m"
proof -
  from assms have "randint (\<lambda>k. nat (int m - 40)) 1 40 80 = int m"
    by (intro randint_attains) simp_all
  then have "length (children 2 1 (create_random_data (\<lambda>k. nat (int m - 40)))) = m"
    by (simp add: first_office_children)
  then show ?thesis by (intro exI [of _ "\<lambda>k. nat (int m - 40)"])
qed

lemma staff_count_attained:
  assumes "30 \<le> m" and "m \<le> 1000"
  shows "\<exists>rs. length (children 3 2 (create_random_data rs)) = m"
proof -
  from assms have "randint (\<lambda>k. nat (int m - 30)) 3 30 1000 = int m"
    by (intro randint_attains) simp_all
  then have "length (children 3 2 (create_random_data (\<lambda>k. nat (int m - 30)))) = m"
    by (simp add: first_department_children)
  then show ?thesis by (intro exI [of _ "\<lambda>k. nat (int m - 30)"])
qed

lemma create_random_data_prefix:
  "\<exists>tl. create_random_data rs =
     \<lparr>node_id = 1, parent_id = None, name = random_name office_prefix rs 0, node_type = 1\<rparr> #
     \<lparr>node_id = 2, parent_id = Some 1, name = random_name department_prefix rs 2,
      node_type = 2\<rparr> #
     \<lparr>node_id = 3, parent_id = Some 2, name = random_name staff_prefix rs 4, node_type = 3\<rparr> #
     tl"
proof -
  define m where "m = nat (randint rs 1 40 80)"
  define n where "n = nat (randint rs 3 30 1000)"
  have "40 \<le> m" unfolding m_def using department_count_range [of rs 1] by simp
  then obtain m' where m': "m = Suc m'" by (cases m) simp_all
  have "30 \<le> n" unfolding n_def using staff_count_range [of rs 3] by simp
  then obtain n' where n': "n = Suc n'" by (cases n) simp_all
  have "fst (staff_loop rs n 2 (2, 4)) =
      \<lparr>node_id = 3, parent_id = Some 2, name = random_name staff_prefix rs 4, node_type = 3\<rparr> #
      fst (staff_loop rs n' 2 (3, 5))"
    unfolding n' by (rule staff_loop_first)
  moreover have "fst (department_loop rs m 1 (1, 2)) =
      \<lparr>node_id = 2, parent_id = Some 1, name = random_name department_prefix rs 2,
       node_type = 2\<rparr> #
      fst (staff_loop rs n 2 (2, 4)) @
      fst (department_loop rs m' 1 (snd (staff_loop rs n 2 (2, 4))))"
    unfolding m' n_def by (rule department_loop_first)
  moreover have "create_random_data rs =
      \<lparr>node_id = 1, parent_id = None, name = random_name office_prefix rs 0, node_type = 1\<rparr> #
      fst (department_loop rs m 1 (1, 2)) @
      fst (office_loop rs 99 (snd (department_loop rs m 1 (1, 2))))"
    unfolding m_def by (rule create_random_data_first)
  ultimately show ?thesis by simp
qed


lemma create_random_data_nodes:
  "r \<in> set (create_random_data rs) \<Longrightarrow> node_type r = 1 \<or> node_type r = 2 \<or> node_type r = 3"
  by (auto simp: create_random_data_def dest: office_loop_nodes)

lemma create_random_data_second:
  shows "1 < length (create_random_data rs)"
    and "create_random_data rs ! 0 \<in> set (create_random_data rs)"
    and "create_random_data rs ! 1 \<in> set (create_random_data rs)"
    and "node_type (create_random_data rs ! 0) = 1"
    and "node_id (create_random_data rs ! 0) = 1"
    and "parent_id (create_random_data rs ! 0) = None"
    and "node_type (create_random_data rs ! 1) = 2"
    and "node_id (create_random_data rs ! 1) = 2"
    and "parent_id (create_random_data rs ! 1) = Some 1"
proof -
  from create_random_data_prefix [of rs] obtain tl where
    "create_random_data rs =
       \<lparr>node_id = 1, parent_id = None, name = random_name office_prefix rs 0, node_type = 1\<rparr> #
       \<lparr>node_id = 2, parent_id = Some 1, name = random_name department_prefix rs 2,
        node_type = 2\<rparr> #
       \<lparr>node_id = 3, parent_id = Some 2, name = random_name staff_prefix rs 4, node_type = 3\<rparr> #
       tl" ..
  then show "1 < length (create_random_data rs)"
    and "create_random_data rs ! 0 \<in> set (create_random_data rs)"
    and "create_random_data rs ! 1 \<in> set (create_random_data rs)"
    and "node_type (create_random_data rs ! 0) = 1"
    and "node_id (create_random_data rs ! 0) = 1"
    and "parent_id (create_random_data rs ! 0) = None"
    and "node_type (create_random_data rs ! 1) = 2"
    and "node_id (create_random_data rs ! 1) = 2"
    and "parent_id (create_random_data rs ! 1) = Some 1"
    by simp_all
qed

text \<open>
  C5. Every sequence of the generator has exactly 100 office nodes; every office has
  between 40 and 80 department children and every department between 30 and 1000
  staff children, and each number in these ranges is the count of the first office
  and of the first department for some draws; every node has type 1, 2 or 3; the ids
  are 1, 2, 3, ... in emission order (one counter, started at 0 and incremented
  before each node), hence unique and strictly increasing.
\<close>

theorem generator_shape:
  "length (filter (\<lambda>r. node_type r = 1) (create_random_data rs)) = 100 \<and>
   (\<forall>p \<in> set (create_random_data rs). node_type p = 1 \<longrightarrow>
      40 \<le> length (children 2 (node_id p) (create_random_data rs)) \<and>
      length (children 2 (node_id p) (create_random_data rs)) \<le> 80) \<and>
   (\<forall>d \<in> set (create_random_data rs). node_type d = 2 \<longrightarrow>
      30 \<le> length (children 3 (node_id d) (create_random_data rs)) \<and>
      length (children 3 (node_id d) (create_random_data rs)) \<le> 1000) \<and>
   (\<forall>r \<in> set (create_random_data rs). node_type r = 1 \<or> node_type r = 2 \<or> node_type r = 3) \<and>
   (\<forall>m. 40 \<le> m \<and> m \<le> 80 \<longrightarrow> (\<exists>rs'. length (children 2 1 (create_random_data rs')) = m)) \<and>
   (\<forall>m. 30 \<le> m \<and> m \<le> 1000 \<longrightarrow> (\<exists>rs'. length (children 3 2 (create_random_data rs')) = m)) \<and>
   map node_id (create_random_data rs) = [1..int (length (create_random_data rs))] \<and>
   distinct (map node_id (create_random_data rs)) \<and>
   sorted_wrt (<) (map node_id (create_random_data rs))"
proof (intro conjI ballI impI allI)
  show "length (filter (\<lambda>r. node_type r = 1) (create_random_data rs)) = 100"
    by (simp add: create_random_data_def office_loop_count)
next
  fix p
  assume "p \<in> set (create_random_data rs)" "node_type p = 1"
  then show "40 \<le> length (children 2 (node_id p) (create_random_data rs))"
    "length (children 2 (node_id p) (create_random_data rs)) \<le> 80"
    by (simp_all add: create_random_data_def office_loop_children_2)
next
  fix d
  assume "d \<in> set (create_random_data rs)" "node_type d = 2"
  then show "30 \<le> length (children 3 (node_id d) (create_random_data rs))"
    "length (children 3 (node_id d) (create_random_data rs)) \<le> 1000"
    by (simp_all add: create_random_data_def office_loop_children_3)
next
  fix r
  assume "r \<in> set (create_random_data rs)"
  then show "node_type r = 1 \<or> node_type r = 2 \<or> node_type r = 3"
    by (rule create_random_data_nodes)
next
  fix m :: nat
  assume "40 \<le> m \<and> m \<le> 80"
  then show "\<exists>rs'. length (children 2 1 (create_random_data rs')) = m"
    by (simp add: department_count_attained)
next
  fix m :: nat
  assume "30 \<le> m \<and> m \<le> 1000"
  then show "\<exists>rs'. length (children 3 2 (create_random_data rs')) = m"
    by (simp add: staff_count_attained)
next
  show "map node_id (create_random_data rs) = [1..int (length (create_random_data rs))]"
    by (rule create_random_data_ids)
next
  show "distinct (map node_id (create_random_data rs))"
    by (simp only: create_random_data_ids distinct_upto)
next
  show "sorted_wrt (<) (map node_id (create_random_data rs))"
    by (simp only: create_random_data_ids sorted_wrt_upto)
qed

theorem generator_shape_witness:
  "create_random_data no_draws ! 0 \<in> set (create_random_data no_draws) \<and>
   node_type (create_random_data no_draws ! 0) = 1 \<and>
   node_id (create_random_data no_draws ! 0) = 1 \<and>
   40 \<le> length (children 2 1 (create_random_data no_draws)) \<and>
   length (children 2 1 (create_random_data no_draws)) \<le> 80 \<and>
   create_random_data no_draws ! 1 \<in> set (create_random_data no_draws) \<and>
   node_type (create_random_data no_draws ! 1) = 2 \<and>
   node_id (create_random_data no_draws ! 1) = 2 \<and>
   30 \<le> length (children 3 2 (create_random_data no_draws)) \<and>
   length (children 3 2 (create_random_data no_draws)) \<le> 1000 \<and>
   (\<exists>rs'. length (children 2 1 (create_random_data rs')) = 57) \<and>
   (\<exists>rs'. length (children 3 2 (create_random_data rs')) = 1000)"
proof -
  let ?xs = "create_random_data no_draws"
  note s = create_random_data_second [of no_draws]
  note g = generator_shape [of no_draws]
  note a = s(2) s(4) s(5)
  note b = s(3) s(7) s(8)
  from g a(1,2) have "40 \<le> length (children 2 (node_id (?xs ! 0)) ?xs) \<and>
      length (children 2 (node_id (?xs ! 0)) ?xs) \<le> 80" by blast
  with a(3) have c: "40 \<le> length (children 2 1 ?xs) \<and> length (children 2 1 ?xs) \<le> 80"
    by simp
  from g b(1,2) have "30 \<le> length (children 3 (node_id (?xs ! 1)) ?xs) \<and>
      length (children 3 (node_id (?xs ! 1)) ?xs) \<le> 1000" by blast
  with b(3) have d: "30 \<le> length (children 3 2 ?xs) \<and> length (children 3 2 ?xs) \<le> 1000"
    by simp
  from g have "(40::nat) \<le> 57 \<and> (57::nat) \<le> 80 \<longrightarrow>
      (\<exists>rs'. length (children 2 1 (create_random_data rs')) = 57)" by blast
  then have e: "\<exists>rs'. length (children 2 1 (create_random_data rs')) = 57" by simp
  from g have "(30::nat) \<le> 1000 \<and> (1000::nat) \<le> 1000 \<longrightarrow>
      (\<exists>rs'. length (children 3 2 (create_random_data rs')) = 1000)" by blast
  then have f: "\<exists>rs'. length (children 3 2 (create_random_data rs')) = 1000" by simp
  from a b c d e f show ?thesis by simp
qed

text \<open>
  C6. Every forest of the generator is well-formed: an office has no parent, the
  parent of a department is an office of the sequence, the parent of a staff node is
  a department of the sequence, and all ids are distinct.
\<close>

theorem generator_well_formed:
  "(\<forall>r \<in> set (create_random_data rs). node_type r = 1 \<longrightarrow> parent_id r = None) \<and>
   (\<forall>r \<in> set (create_random_data rs). node_type r = 2 \<longrightarrow>
      (\<exists>p \<in> set (create_random_data rs). node_type p = 1 \<and> parent_id r = Some (node_id p))) \<and>
   (\<forall>r \<in> set (create_random_data rs). node_type r = 3 \<longrightarrow>
      (\<exists>p \<in> set (create_random_data rs). node_type p = 2 \<and> parent_id r = Some (node_id p))) \<and>
   distinct (map node_id (create_random_data rs)) \<and>
   wf_forest (create_random_data rs)"
proof -
  have w: "wf_forest (create_random_data rs)" by (rule create_random_data_wf)
  then have "distinct (map node_id (create_random_data rs))" by (simp add: wf_forest_def)
  moreover from w have "\<forall>r \<in> set (create_random_data rs). node_type r = 1 \<longrightarrow> parent_id r = None"
    unfolding wf_forest_def by force
  moreover from w have "\<forall>r \<in> set (create_random_data rs). node_type r = 2 \<longrightarrow>
      (\<exists>p \<in> set (create_random_data rs). node_type p = 1 \<and> parent_id r = Some (node_id p))"
    unfolding wf_forest_def by force
  moreover from w have "\<forall>r \<in> set (create_random_data rs). node_type r = 3 \<longrightarrow>
      (\<exists>p \<in> set (create_random_data rs). node_type p = 2 \<and> parent_id r = Some (node_id p))"
    unfolding wf_forest_def by force
  ultimately show ?thesis using w by blast
qed

theorem generator_well_formed_witness:
  "create_random_data no_draws ! 0 \<in> set (create_random_data no_draws) \<and>
   node_type (create_random_data no_draws ! 0) = 1 \<and>
   parent_id (create_random_data no_draws ! 0) = None \<and>
   create_random_data no_draws ! 1 \<in> set (create_random_data no_draws) \<and>
   node_type (create_random_data no_draws ! 1) = 2 \<and>
   (\<exists>p \<in> set (create_random_data no_draws).
      node_type p = 1 \<and> parent_id (create_random_data no_draws ! 1) = Some (node_id p))"
proof -
  let ?xs = "create_random_data no_draws"
  note s = create_random_data_second [of no_draws]
  note g = generator_well_formed [of no_draws]
  note a = s(2) s(4)
  note b = s(3) s(7)
  from g a have "parent_id (?xs ! 0) = None" by blast
  moreover from g b have "\<exists>p \<in> set ?xs. node_type p = 1 \<and> parent_id (?xs ! 1) = Some (node_id p)"
    by blast
  ultimately show ?thesis using a b by simp
qed

text \<open>
  C10. In every sequence of the generator, the parent of a node is emitted strictly
  before the node, and it is one level above it (the office of a department, the
  department of a staff node).
\<close>

theorem parents_emitted_first:
  "\<forall>j < length (create_random_data rs). \<forall>q.
     parent_id (create_random_data rs ! j) = Some q \<longrightarrow>
     (\<exists>i < j. node_id (create_random_data rs ! i) = q \<and>
              node_type (create_random_data rs ! i) + 1 = node_type (create_random_data rs ! j))"
proof (intro allI impI)
  fix j q
  let ?xs = "create_random_data rs"
  assume j: "j < length ?xs" and q: "parent_id (?xs ! j) = Some q"
  have "linked [] ?xs" unfolding create_random_data_def by (rule office_loop_linked)
  from linked_nth [OF this j] have "link_ok (take j ?xs) (?xs ! j)" by simp
  with q obtain p where p: "p \<in> set (take j ?xs)" "node_id p = q"
    "node_type p + 1 = node_type (?xs ! j)"
    unfolding link_ok_def by auto
  from take_member_nth [OF p(1)] obtain i where "i < j" "?xs ! i = p" by blast
  with p show "\<exists>i < j. node_id (?xs ! i) = q \<and> node_type (?xs ! i) + 1 = node_type (?xs ! j)"
    by blast
qed

theorem parents_emitted_first_witness:
  "1 < length (create_random_data no_draws) \<and>
   parent_id (create_random_data no_draws ! 1) = Some 1 \<and>
   (\<exists>i < 1. node_id (create_random_data no_draws ! i) = 1 \<and>
            node_type (create_random_data no_draws ! i) + 1 =
              node_type (create_random_data no_draws ! 1))"
proof -
  let ?xs = "create_random_data no_draws"
  note s = create_random_data_second [of no_draws]
  note a = s(1) s(9)
  with parents_emitted_first [of no_draws]
  have "\<exists>i < 1. node_id (?xs ! i) = 1 \<and> node_type (?xs ! i) + 1 = node_type (?xs ! 1)"
    by blast
  with a show ?thesis by simp
qed


end
